theory Spec2Isabelle
  imports Main "HOL-Library.Word" "HOL-Library.Code_Target_Numeral"
begin

section \<open>Element types and failures\<close>

text \<open>
  The tensors of the tokenizer extension carry \<open>u8\<close> bytes and \<open>i32\<close> offsets and
  token ids. An \<open>i32\<close> is a 32-bit word read through \<open>sint\<close>; arithmetic on it wraps.
\<close>

type_synonym u8 = "8 word"
type_synonym i32 = "32 word"

text \<open>
  Every way an operator of the extension stops without producing its outputs.
  \<^item> \<open>MalformedPackedBuffer\<close>: a \<open>FRONT_END_GENERAL_CHECK\<close> of \<open>parse_packed_strings\<close> fails.
  \<^item> \<open>UnknownSplitMode\<close>: the \<open>OPENVINO_ASSERT\<close> of \<open>RegexSplit::validate_and_infer_types\<close> fails.
  \<^item> \<open>SentencePieceEncode\<close>: the specification's name for a failed \<open>SampleEncode\<close>.
  \<^item> \<open>InternalInvariantViolated\<close>: any other \<open>OPENVINO_ASSERT\<close> inside an \<open>evaluate\<close> fails.
  \<^item> \<open>KeyNotFound\<close>: \<open>at\<close> on a container without the key.
  \<^item> \<open>ShapeTooLarge\<close>: a negative \<open>i32\<close> converted to an unsigned tensor dimension.
  \<^item> \<open>OutOfBounds\<close>: a read or write outside a tensor's buffer, or a range whose end
    precedes its begin; the C++ has undefined behaviour there.
\<close>

datatype error =
    MalformedPackedBuffer
  | UnknownSplitMode
  | SentencePieceEncode
  | InternalInvariantViolated
  | KeyNotFound
  | ShapeTooLarge
  | OutOfBounds

section \<open>The byte-to-char table\<close>

text \<open>
  \<open>create_bytes_to_chars_map\<close>, entry by entry in the order of the source. The
  initializer list fills an \<open>unordered_map\<close>; \<open>at\<close> is the lookup.
\<close>

definition create_bytes_to_chars_map :: "(u8 \<times> u8 list) list" where
  "create_bytes_to_chars_map =
    [(33, [33]), (34, [34]), (35, [35]), (36, [36]), (37, [37]), (38, [38]),
     (39, [39]), (40, [40]), (41, [41]), (42, [42]), (43, [43]), (44, [44]),
     (45, [45]), (46, [46]), (47, [47]), (48, [48]), (49, [49]), (50, [50]),
     (51, [51]), (52, [52]), (53, [53]), (54, [54]), (55, [55]), (56, [56]),
     (57, [57]), (58, [58]), (59, [59]), (60, [60]), (61, [61]), (62, [62]),
     (63, [63]), (64, [64]), (65, [65]), (66, [66]), (67, [67]), (68, [68]),
     (69, [69]), (70, [70]), (71, [71]), (72, [72]), (73, [73]), (74, [74]),
     (75, [75]), (76, [76]), (77, [77]), (78, [78]), (79, [79]), (80, [80]),
     (81, [81]), (82, [82]), (83, [83]), (84, [84]), (85, [85]), (86, [86]),
     (87, [87]), (88, [88]), (89, [89]), (90, [90]), (91, [91]), (92, [92]),
     (93, [93]), (94, [94]), (95, [95]), (96, [96]), (97, [97]), (98, [98]),
     (99, [99]), (100, [100]), (101, [101]), (102, [102]), (103, [103]), (104, [104]),
     (105, [105]), (106, [106]), (107, [107]), (108, [108]), (109, [109]), (110, [110]),
     (111, [111]), (112, [112]), (113, [113]), (114, [114]), (115, [115]), (116, [116]),
     (117, [117]), (118, [118]), (119, [119]), (120, [120]), (121, [121]), (122, [122]),
     (123, [123]), (124, [124]), (125, [125]), (126, [126]), (161, [194, 161]), (162, [194, 162]),
     (163, [194, 163]), (164, [194, 164]), (165, [194, 165]), (166, [194, 166]), (167, [194, 167]), (168, [194, 168]),
     (169, [194, 169]), (170, [194, 170]), (171, [194, 171]), (172, [194, 172]), (174, [194, 174]), (175, [194, 175]),
     (176, [194, 176]), (177, [194, 177]), (178, [194, 178]), (179, [194, 179]), (180, [194, 180]), (181, [194, 181]),
     (182, [194, 182]), (183, [194, 183]), (184, [194, 184]), (185, [194, 185]), (186, [194, 186]), (187, [194, 187]),
     (188, [194, 188]), (189, [194, 189]), (190, [194, 190]), (191, [194, 191]), (192, [195, 128]), (193, [195, 129]),
     (194, [195, 130]), (195, [195, 131]), (196, [195, 132]), (197, [195, 133]), (198, [195, 134]), (199, [195, 135]),
     (200, [195, 136]), (201, [195, 137]), (202, [195, 138]), (203, [195, 139]), (204, [195, 140]), (205, [195, 141]),
     (206, [195, 142]), (207, [195, 143]), (208, [195, 144]), (209, [195, 145]), (210, [195, 146]), (211, [195, 147]),
     (212, [195, 148]), (213, [195, 149]), (214, [195, 150]), (215, [195, 151]), (216, [195, 152]), (217, [195, 153]),
     (218, [195, 154]), (219, [195, 155]), (220, [195, 156]), (221, [195, 157]), (222, [195, 158]), (223, [195, 159]),
     (224, [195, 160]), (225, [195, 161]), (226, [195, 162]), (227, [195, 163]), (228, [195, 164]), (229, [195, 165]),
     (230, [195, 166]), (231, [195, 167]), (232, [195, 168]), (233, [195, 169]), (234, [195, 170]), (235, [195, 171]),
     (236, [195, 172]), (237, [195, 173]), (238, [195, 174]), (239, [195, 175]), (240, [195, 176]), (241, [195, 177]),
     (242, [195, 178]), (243, [195, 179]), (244, [195, 180]), (245, [195, 181]), (246, [195, 182]), (247, [195, 183]),
     (248, [195, 184]), (249, [195, 185]), (250, [195, 186]), (251, [195, 187]), (252, [195, 188]), (253, [195, 189]),
     (254, [195, 190]), (255, [195, 191]), (0, [196, 128]), (1, [196, 129]), (2, [196, 130]), (3, [196, 131]),
     (4, [196, 132]), (5, [196, 133]), (6, [196, 134]), (7, [196, 135]), (8, [196, 136]), (9, [196, 137]),
     (10, [196, 138]), (11, [196, 139]), (12, [196, 140]), (13, [196, 141]), (14, [196, 142]), (15, [196, 143]),
     (16, [196, 144]), (17, [196, 145]), (18, [196, 146]), (19, [196, 147]), (20, [196, 148]), (21, [196, 149]),
     (22, [196, 150]), (23, [196, 151]), (24, [196, 152]), (25, [196, 153]), (26, [196, 154]), (27, [196, 155]),
     (28, [196, 156]), (29, [196, 157]), (30, [196, 158]), (31, [196, 159]), (32, [196, 160]), (127, [196, 161]),
     (128, [196, 162]), (129, [196, 163]), (130, [196, 164]), (131, [196, 165]), (132, [196, 166]), (133, [196, 167]),
     (134, [196, 168]), (135, [196, 169]), (136, [196, 170]), (137, [196, 171]), (138, [196, 172]), (139, [196, 173]),
     (140, [196, 174]), (141, [196, 175]), (142, [196, 176]), (143, [196, 177]), (144, [196, 178]), (145, [196, 179]),
     (146, [196, 180]), (147, [196, 181]), (148, [196, 182]), (149, [196, 183]), (150, [196, 184]), (151, [196, 185]),
     (152, [196, 186]), (153, [196, 187]), (154, [196, 188]), (155, [196, 189]), (156, [196, 190]), (157, [196, 191]),
     (158, [197, 128]), (159, [197, 129]), (160, [197, 130]), (173, [197, 131])]"

definition bytes_to_chars_at :: "u8 \<Rightarrow> error + u8 list" where
  "bytes_to_chars_at b =
     (case map_of create_bytes_to_chars_map b of
        None \<Rightarrow> Inl KeyNotFound
      | Some bs \<Rightarrow> Inr bs)"

text \<open>
  The table in the words of the specification: bytes 33..126 stand for themselves; every
  other byte becomes the two-byte UTF-8 encoding of a code point, which is the byte's own
  value for 161..172 and 174..255, and the next unused code point from \<open>0x100\<close> upward
  for 0..32, 127..160 and 173, in this order.
\<close>

definition spec_code_point :: "u8 \<Rightarrow> nat" where
  "spec_code_point b =
     (if b \<le> 32 then 256 + unat b
      else if 127 \<le> b \<and> b \<le> 160 then 256 + 33 + (unat b - 127)
      else if b = 173 then 256 + 67
      else unat b)"

definition spec_utf8_two_bytes :: "nat \<Rightarrow> u8 list" where
  "spec_utf8_two_bytes cp = [of_nat (192 + cp div 64), of_nat (128 + cp mod 64)]"

definition spec_bytes_to_chars :: "u8 \<Rightarrow> u8 list" where
  "spec_bytes_to_chars b =
     (if 33 \<le> b \<and> b \<le> 126 then [b] else spec_utf8_two_bytes (spec_code_point b))"

text \<open>
  A run of the specification's table, for the byte values \<open>a\<close> up to \<open>b - 1\<close>; the source
  lists its entries in six such runs.
\<close>

definition spec_table_run :: "nat \<Rightarrow> nat \<Rightarrow> (u8 \<times> u8 list) list" where
  "spec_table_run a b = map (\<lambda>n. (of_nat n, spec_bytes_to_chars (of_nat n))) [a..<b]"

section \<open>RegexSplit: split modes\<close>

datatype SplitMode = REMOVED | ISOLATED | MERGED_WITH_PREVIOUS | MERGED_WITH_NEXT

definition split_modes :: "(string \<times> SplitMode) list" where
  "split_modes =
    [(''remove'', REMOVED),
     (''isolate'', ISOLATED),
     (''merge_with_previous'', MERGED_WITH_PREVIOUS),
     (''merge_with_next'', MERGED_WITH_NEXT)]"


section \<open>Buffers, conversions and loops\<close>

text \<open>
  A tensor's data is a list. A read through a pointer is a bounds-checked read of the
  list: where the C++ would leave the buffer, the model stops with \<open>OutOfBounds\<close>.
  A range \<open>[b, e)\<close> of no elements touches no memory.
\<close>

definition read_at :: "'a list \<Rightarrow> nat \<Rightarrow> error + 'a" where
  "read_at xs i = (if i < length xs then Inr (xs ! i) else Inl OutOfBounds)"

definition read_range :: "'a list \<Rightarrow> int \<Rightarrow> int \<Rightarrow> error + 'a list" where
  "read_range xs b e =
     (if b = e then Inr []
      else if 0 \<le> b \<and> b < e \<and> e \<le> int (length xs)
      then Inr (take (nat (e - b)) (drop (nat b) xs))
      else Inl OutOfBounds)"

text \<open>
  An output tensor after \<open>set_shape\<close> holds indeterminate values: a cell is \<open>None\<close>
  until the operator writes it.
\<close>

definition allocate :: "nat \<Rightarrow> 'a option list" where
  "allocate n = replicate n None"

definition write_at :: "'a option list \<Rightarrow> nat \<Rightarrow> 'a \<Rightarrow> error + 'a option list" where
  "write_at xs i v = (if i < length xs then Inr (xs[i := Some v]) else Inl OutOfBounds)"

text \<open>
  A write through \<open>p[i]\<close> with an \<open>int32_t\<close> index \<open>i\<close>: the index is signed.
\<close>

definition write_at_i32 :: "'a option list \<Rightarrow> i32 \<Rightarrow> 'a \<Rightarrow> error + 'a option list" where
  "write_at_i32 xs i v = (if 0 \<le> sint i then write_at xs (nat (sint i)) v else Inl OutOfBounds)"

text \<open>
  The implicit conversion of an \<open>int32_t\<close> to \<open>size_t\<close> (64 bits): sign extension, then
  read as unsigned. A negative value becomes a number near \<open>2 ^ 64\<close>.
\<close>

definition size_t_of_i32 :: "i32 \<Rightarrow> nat" where
  "size_t_of_i32 w = unat (scast w :: 64 word)"

text \<open>
  \<open>*reinterpret_cast<const int32_t*>(p)\<close> and its inverse on a little-endian host: the
  packed string format fixes little-endian \<open>int32\<close> fields.
\<close>

definition i32_of_bytes :: "u8 list \<Rightarrow> i32" where
  "i32_of_bytes bs =
     of_nat (unat (bs ! 0) + 256 * unat (bs ! 1) + 65536 * unat (bs ! 2) + 16777216 * unat (bs ! 3))"

definition bytes_of_i32 :: "i32 \<Rightarrow> u8 list" where
  "bytes_of_i32 w =
     [of_nat (unat w mod 256), of_nat (unat w div 256 mod 256),
      of_nat (unat w div 65536 mod 256), of_nat (unat w div 16777216)]"

definition read_i32 :: "u8 list \<Rightarrow> int \<Rightarrow> error + i32" where
  "read_i32 buf pos =
     (if 0 \<le> pos \<and> pos + 4 \<le> int (length buf)
      then Inr (i32_of_bytes (take 4 (drop (nat pos) buf)))
      else Inl OutOfBounds)"

text \<open>
  A \<open>for\<close> loop over the indices \<open>is\<close>: the body maps the loop state to the next state
  or raises, and a raise leaves the loop.
\<close>

fun for_each :: "('i \<Rightarrow> 's \<Rightarrow> error + 's) \<Rightarrow> 'i list \<Rightarrow> 's \<Rightarrow> error + 's" where
  "for_each body [] s = Inr s"
| "for_each body (i # is) s =
     (case body i s of Inl e \<Rightarrow> Inl e | Inr s' \<Rightarrow> for_each body is s')"


section \<open>Packed string tensors\<close>

text \<open>
  The decomposed string triple \<open>(begins, ends, chars)\<close>; the shape of \<open>begins\<close> and
  \<open>ends\<close> is flat.
\<close>

record string_triple =
  begins :: "i32 list"
  ends :: "i32 list"
  chars :: "u8 list"

text \<open>
  What \<open>parse_packed_strings\<close> hands back through its reference parameters: the batch
  size, and the byte positions inside the buffer where \<open>begin_ids\<close>, \<open>end_ids\<close> and
  \<open>symbols\<close> point.
\<close>

record packed_view =
  batch_size :: i32
  begin_ids :: int
  end_ids :: int
  symbols :: int

text \<open>
  \<open>parse_packed_strings\<close>. The bound \<open>4 + 4 + 4 * batch_size\<close> is computed in \<open>int\<close>
  (32 bits, wrapping) and converted to \<open>size_t\<close> for the comparison with the byte size;
  the same \<open>int\<close> product is the offset of \<open>symbols\<close>.
\<close>

definition parse_packed_strings :: "u8 list \<Rightarrow> error + packed_view" where
  "parse_packed_strings packed =
     (let bitstream_size = length packed in
      if \<not> bitstream_size \<ge> 4 then Inl MalformedPackedBuffer
      else
        let batch_size = i32_of_bytes (take 4 packed) in
        if \<not> bitstream_size \<ge> size_t_of_i32 (4 + 4 + 4 * batch_size) then Inl MalformedPackedBuffer
        else Inr \<lparr>batch_size = batch_size, begin_ids = 4, end_ids = 4 + 4,
                  symbols = 4 + 4 + sint (4 * batch_size)\<rparr>)"

text \<open>Reading \<open>n\<close> consecutive \<open>int32\<close> values starting at byte position \<open>pos\<close>.\<close>

definition read_i32s :: "u8 list \<Rightarrow> int \<Rightarrow> nat \<Rightarrow> error + i32 list" where
  "read_i32s buf pos n =
     for_each (\<lambda>k acc. case read_i32 buf (pos + 4 * int k) of
                          Inl e \<Rightarrow> Inl e
                        | Inr w \<Rightarrow> Inr (acc @ [w]))
       [0..<n] []"

text \<open>
  \<open>StringTensorUnpack::evaluate\<close> on a packed \<open>u8\<close> tensor (the build has no string
  element type). \<open>num_chars\<close> is \<open>end_ids[batch_size - 1]\<close>; the three output shapes
  cast \<open>batch_size\<close> and \<open>num_chars\<close> to \<open>unsigned long\<close>, which no allocation
  survives when they are negative.
\<close>

definition StringTensorUnpack_evaluate :: "u8 list \<Rightarrow> error + string_triple" where
  "StringTensorUnpack_evaluate tensor =
     (case parse_packed_strings tensor of
        Inl e \<Rightarrow> Inl e
      | Inr p \<Rightarrow>
         (case read_i32 tensor (end_ids p + 4 * sint (batch_size p - 1)) of
            Inl e \<Rightarrow> Inl e
          | Inr num_chars \<Rightarrow>
             if sint (batch_size p) < 0 \<or> sint num_chars < 0 then Inl ShapeTooLarge
             else
               (case read_i32s tensor (begin_ids p) (size_t_of_i32 (batch_size p)) of
                  Inl e \<Rightarrow> Inl e
                | Inr bs \<Rightarrow>
                   (case read_i32s tensor (end_ids p) (size_t_of_i32 (batch_size p)) of
                      Inl e \<Rightarrow> Inl e
                    | Inr es \<Rightarrow>
                       (case read_range tensor (symbols p) (symbols p + sint num_chars) of
                          Inl e \<Rightarrow> Inl e
                        | Inr cs \<Rightarrow> Inr \<lparr>begins = bs, ends = es, chars = cs\<rparr>)))))"

text \<open>
  \<open>StringTensorPack::evaluate\<close>: the number of strings is the size of \<open>begins\<close>, whose
  values are not read; the batch size, a zero, the \<open>ends\<close> and the \<open>chars\<close> are
  written one after the other, and the final assertion compares the bytes written with
  the size computed first.
\<close>

definition StringTensorPack_evaluate :: "string_triple \<Rightarrow> error + u8 list" where
  "StringTensorPack_evaluate inputs =
     (let num_elements = length (begins inputs);
          num_chars = length (chars inputs);
          num_output_elements = 4 * (1 + 1 + num_elements) + num_chars
      in if length (ends inputs) < num_elements then Inl OutOfBounds
         else
           let output = bytes_of_i32 (of_nat num_elements) @ bytes_of_i32 0
                        @ concat (map bytes_of_i32 (take num_elements (ends inputs)))
                        @ chars inputs
           in if num_output_elements = length output then Inr output
              else Inl InternalInvariantViolated)"

text \<open>
  A canonical packed buffer, in the words of the specification: the batch size \<open>N\<close> is
  not negative, \<open>N + 1\<close> offsets follow it, the first offset is 0, and the payload after
  the offsets is exactly \<open>offsets[N]\<close> bytes long.
\<close>

definition spec_canonical_packed :: "u8 list \<Rightarrow> bool" where
  "spec_canonical_packed buf =
     (4 \<le> length buf \<and>
      (let N = sint (i32_of_bytes (take 4 buf)) in
         0 \<le> N \<and> 4 * (N + 2) \<le> int (length buf) \<and>
         read_i32 buf 4 = Inr 0 \<and>
         (case read_i32 buf (4 + 4 * N) of
            Inl e \<Rightarrow> False
          | Inr final \<Rightarrow> 0 \<le> sint final \<and> int (length buf) = 4 * (N + 2) + sint final)))"

text \<open>The batch size a packed buffer of at least four bytes declares, as a number.\<close>

definition declared_batch_size :: "u8 list \<Rightarrow> int" where
  "declared_batch_size buf = sint (i32_of_bytes (take 4 buf))"


section \<open>Ragged strings\<close>

text \<open>
  The decomposed ragged-string quintuple: a string triple with the element ranges
  \<open>ragged_begins\<close>, \<open>ragged_ends\<close> of the rows.
\<close>

record ragged_strings = string_triple +
  ragged_begins :: "i32 list"
  ragged_ends :: "i32 list"

text \<open>
  The five output tensors of an operator that produces ragged strings. The row ranges are
  of type \<open>'r\<close> and the characters of type \<open>'c\<close>: \<open>BytesToChars\<close> passes its input
  row ranges on (all cells known) and fills a fresh character buffer cell by cell,
  \<open>RegexSplit\<close> writes the row ranges cell by cell and passes the characters on.
\<close>

record ('r, 'c) ragged_strings_out =
  new_ragged_begins :: "'r list"
  new_ragged_ends :: "'r list"
  new_begins :: "i32 option list"
  new_ends :: "i32 option list"
  new_chars :: "'c list"

section \<open>BytesToChars\<close>

text \<open>
  The bytes the table gives for a string, one input byte after the other: the two
  innermost loops of \<open>BytesToChars::evaluate\<close> without the output buffer.
\<close>

definition bytes_to_chars_string :: "u8 list \<Rightarrow> error + u8 list" where
  "bytes_to_chars_string bs =
     for_each (\<lambda>b out. case bytes_to_chars_at b of
                          Inl e \<Rightarrow> Inl e
                        | Inr ys \<Rightarrow> Inr (out @ ys))
       bs []"

text \<open>
  The loop over the bytes \<open>k\<close> of string \<open>i\<close>. \<open>char_pointer\<close> is a \<open>uint32_t\<close>;
  \<open>begins[i] + k\<close> is computed in \<open>size_t\<close>.
\<close>

definition BytesToChars_byte ::
  "ragged_strings \<Rightarrow> nat \<Rightarrow> nat \<Rightarrow> nat \<times> u8 option list \<Rightarrow> error + nat \<times> u8 option list" where
  "BytesToChars_byte inputs i k st =
     (case read_at (begins inputs) i of
        Inl e \<Rightarrow> Inl e
      | Inr b \<Rightarrow>
         (case read_at (chars inputs) ((size_t_of_i32 b + k) mod 2 ^ 64) of
            Inl e \<Rightarrow> Inl e
          | Inr c \<Rightarrow>
             (case bytes_to_chars_at c of
                Inl e \<Rightarrow> Inl e
              | Inr bytes \<Rightarrow>
                 for_each (\<lambda>byte (char_pointer, new_chars).
                             case write_at new_chars char_pointer byte of
                               Inl e \<Rightarrow> Inl e
                             | Inr new_chars' \<Rightarrow> Inr ((char_pointer + 1) mod 2 ^ 32, new_chars'))
                   bytes st)))"

definition BytesToChars_word ::
  "ragged_strings \<Rightarrow> nat \<Rightarrow> nat \<times> u8 option list \<Rightarrow> error + nat \<times> u8 option list" where
  "BytesToChars_word inputs i st =
     (case read_at (ends inputs) i of
        Inl e \<Rightarrow> Inl e
      | Inr en \<Rightarrow>
         (case read_at (begins inputs) i of
            Inl e \<Rightarrow> Inl e
          | Inr b \<Rightarrow>
             (let word_len = en - b
              in for_each (BytesToChars_byte inputs i) [0..<size_t_of_i32 word_len] st)))"

text \<open>
  The body of the outer loop over the rows \<open>j\<close>: \<open>new_begins[j]\<close> and \<open>new_ends[j]\<close>
  are written once per row, around the loop over the strings of the row.
\<close>

definition BytesToChars_row ::
  "ragged_strings \<Rightarrow> nat \<Rightarrow> nat \<times> i32 option list \<times> i32 option list \<times> u8 option list
     \<Rightarrow> error + nat \<times> i32 option list \<times> i32 option list \<times> u8 option list" where
  "BytesToChars_row inputs j st =
     (case st of (char_pointer, nb, ne, nc) \<Rightarrow>
        (case write_at nb j (of_nat char_pointer) of
           Inl e \<Rightarrow> Inl e
         | Inr nb' \<Rightarrow>
            (case read_at (ragged_begins inputs) j of
               Inl e \<Rightarrow> Inl e
             | Inr rb \<Rightarrow>
                (case read_at (ragged_ends inputs) j of
                   Inl e \<Rightarrow> Inl e
                 | Inr re \<Rightarrow>
                    (case for_each (BytesToChars_word inputs)
                            [size_t_of_i32 rb..<size_t_of_i32 re] (char_pointer, nc) of
                       Inl e \<Rightarrow> Inl e
                     | Inr (char_pointer', nc') \<Rightarrow>
                        (case write_at ne j (of_nat char_pointer') of
                           Inl e \<Rightarrow> Inl e
                         | Inr ne' \<Rightarrow> Inr (char_pointer', nb', ne', nc')))))))"

text \<open>
  \<open>BytesToChars::evaluate\<close>. Outputs 0 and 1 are the input tensors; outputs 2 and 3 take
  the shapes of the input \<open>begins\<close> and \<open>ends\<close>; output 4 has twice the input
  characters and keeps this shape.
\<close>

definition BytesToChars_evaluate ::
  "ragged_strings \<Rightarrow> error + (i32, u8 option) ragged_strings_out" where
  "BytesToChars_evaluate inputs =
     (let num_elems = length (ragged_begins inputs)
      in case for_each (BytesToChars_row inputs) [0..<num_elems]
                (0, allocate (length (begins inputs)), allocate (length (ends inputs)),
                 allocate (length (chars inputs) * 2)) of
           Inl e \<Rightarrow> Inl e
         | Inr (char_pointer, nb, ne, nc) \<Rightarrow>
             Inr \<lparr>new_ragged_begins = ragged_begins inputs,
                  new_ragged_ends = ragged_ends inputs,
                  new_begins = nb, new_ends = ne, new_chars = nc\<rparr>)"


section \<open>RegexSplit\<close>

text \<open>
  The splitter is \<open>pretokenizers::SplitPreTokenizer\<close> of the fast_tokenizer library,
  built from the pattern, the split mode and \<open>m_invert\<close>. The operator uses it through
  one observation: for a string, the original offsets \<open>(first, second)\<close> of its splits in
  order. It is a parameter \<open>pretokenizer\<close> of that type.
\<close>

type_synonym split_pretokenizer = "u8 list \<Rightarrow> SplitMode \<Rightarrow> bool \<Rightarrow> u8 list \<Rightarrow> (nat \<times> nat) list"

text \<open>
  One iteration of the loop over the words of row \<open>seq\<close>: the string is cut out,
  split, \<open>new_ragged_begins[seq]\<close> is set to the current \<open>ragged_offset\<close>, and every
  split is stored shifted by \<open>begins[word]\<close>.
\<close>

definition RegexSplit_word ::
  "(u8 list \<Rightarrow> (nat \<times> nat) list) \<Rightarrow> ragged_strings \<Rightarrow> nat \<Rightarrow> nat
    \<Rightarrow> i32 \<times> i32 option list \<times> i32 option list \<times> i32 option list
    \<Rightarrow> error + i32 \<times> i32 option list \<times> i32 option list \<times> i32 option list" where
  "RegexSplit_word pretokenizer inputs seq word st =
     (case st of (ragged_offset, nrb, nb, ne) \<Rightarrow>
        (case read_at (begins inputs) word of
           Inl e \<Rightarrow> Inl e
         | Inr b \<Rightarrow>
            (case read_at (ends inputs) word of
               Inl e \<Rightarrow> Inl e
             | Inr en \<Rightarrow>
                (case read_range (chars inputs) (sint b) (sint en) of
                   Inl e \<Rightarrow> Inl e
                 | Inr str \<Rightarrow>
                    (case write_at nrb seq ragged_offset of
                       Inl e \<Rightarrow> Inl e
                     | Inr nrb' \<Rightarrow>
                        for_each (\<lambda>offset (ragged_offset, nrb, nb, ne).
                                    case write_at_i32 nb ragged_offset (b + of_nat (fst offset)) of
                                      Inl e \<Rightarrow> Inl e
                                    | Inr nb' \<Rightarrow>
                                       (case write_at_i32 ne ragged_offset (b + of_nat (snd offset)) of
                                          Inl e \<Rightarrow> Inl e
                                        | Inr ne' \<Rightarrow> Inr (ragged_offset + 1, nrb, nb', ne')))
                          (pretokenizer str) (ragged_offset, nrb', nb, ne))))))"

text \<open>
  One iteration of the loop over the rows: the words \<open>ragged_begins[seq]\<close> up to
  \<open>ragged_ends[seq]\<close> (compared as \<open>size_t\<close>), then \<open>new_ragged_ends[seq]\<close>.
\<close>

definition RegexSplit_seq ::
  "(u8 list \<Rightarrow> (nat \<times> nat) list) \<Rightarrow> ragged_strings \<Rightarrow> nat
    \<Rightarrow> i32 \<times> i32 option list \<times> i32 option list \<times> i32 option list \<times> i32 option list
    \<Rightarrow> error + i32 \<times> i32 option list \<times> i32 option list \<times> i32 option list \<times> i32 option list" where
  "RegexSplit_seq pretokenizer inputs seq st =
     (case st of (ragged_offset, nrb, nre, nb, ne) \<Rightarrow>
        (case read_at (ragged_begins inputs) seq of
           Inl e \<Rightarrow> Inl e
         | Inr rb \<Rightarrow>
            (case read_at (ragged_ends inputs) seq of
               Inl e \<Rightarrow> Inl e
             | Inr re \<Rightarrow>
                (case for_each (RegexSplit_word pretokenizer inputs seq)
                        [size_t_of_i32 rb..<size_t_of_i32 re] (ragged_offset, nrb, nb, ne) of
                   Inl e \<Rightarrow> Inl e
                 | Inr (ragged_offset', nrb', nb', ne') \<Rightarrow>
                    (case write_at nre seq ragged_offset' of
                       Inl e \<Rightarrow> Inl e
                     | Inr nre' \<Rightarrow> Inr (ragged_offset', nrb', nre', nb', ne'))))))"

text \<open>
  The two loops, which both branches of \<open>RegexSplit::evaluate\<close> run with their own
  \<open>num_elements\<close>; \<open>shape0\<close> and \<open>shape1\<close> are the sizes of outputs 0 and 1, and outputs 2
  and 3 hold \<open>num_chars\<close> cells until they are cut to \<open>ragged_offset\<close> at the end.
  In the flat branch the row ranges are local arrays built before the loops.
\<close>

definition RegexSplit_loops ::
  "(u8 list \<Rightarrow> (nat \<times> nat) list) \<Rightarrow> ragged_strings
    \<Rightarrow> nat \<Rightarrow> nat \<Rightarrow> nat \<Rightarrow> error + (i32 option, u8) ragged_strings_out" where
  "RegexSplit_loops pretokenizer inputs num_elements shape0 shape1 =
     (let num_chars = length (chars inputs)
      in case for_each (RegexSplit_seq pretokenizer inputs) [0..<num_elements]
                (0, allocate shape0, allocate shape1, allocate num_chars, allocate num_chars) of
           Inl e \<Rightarrow> Inl e
         | Inr (ragged_offset, nrb, nre, nb, ne) \<Rightarrow>
             Inr \<lparr>new_ragged_begins = nrb, new_ragged_ends = nre,
                  new_begins = take (size_t_of_i32 ragged_offset) nb,
                  new_ends = take (size_t_of_i32 ragged_offset) ne,
                  new_chars = chars inputs\<rparr>)"

text \<open>
  The inputs of \<open>RegexSplit::evaluate\<close>: fewer than five tensors are a string triple and
  the pattern, otherwise a ragged-string quintuple and the pattern.
\<close>

datatype RegexSplit_inputs =
    Flat string_triple "u8 list"
  | Ragged ragged_strings "u8 list"

text \<open>
  \<open>RegexSplit::evaluate\<close>. The flat branch makes row \<open>i\<close> the single string \<open>i\<close> and
  runs the loops over the size of input 0. The ragged branch takes \<open>num_elements\<close> from
  input 2, the \<open>begins\<close>. \<open>split_modes.at\<close> raises on an unknown behaviour.
\<close>

definition RegexSplit_evaluate ::
  "split_pretokenizer \<Rightarrow> string \<Rightarrow> bool \<Rightarrow> RegexSplit_inputs
     \<Rightarrow> error + (i32 option, u8) ragged_strings_out" where
  "RegexSplit_evaluate SplitPreTokenizer m_behaviour m_invert inputs =
     (case inputs of
        Flat t split_pattern \<Rightarrow>
          (let n = length (begins t);
               promoted = \<lparr>begins = begins t, ends = ends t, chars = chars t,
                            ragged_begins = map of_nat [0..<n],
                            ragged_ends = map (\<lambda>i. of_nat i + 1) [0..<n]\<rparr>;
               num_elements = length (begins t)
           in case map_of split_modes m_behaviour of
                None \<Rightarrow> Inl KeyNotFound
              | Some mode \<Rightarrow>
                  RegexSplit_loops (SplitPreTokenizer split_pattern mode m_invert) promoted
                    num_elements (length (begins t)) (length (ends t)))
      | Ragged q split_pattern \<Rightarrow>
          (let num_elements = length (begins q)
           in case map_of split_modes m_behaviour of
                None \<Rightarrow> Inl KeyNotFound
              | Some mode \<Rightarrow>
                  RegexSplit_loops (SplitPreTokenizer split_pattern mode m_invert) q
                    num_elements (length (ragged_begins q)) (length (ragged_ends q))))"


section \<open>RaggedToDense\<close>

text \<open>
  The decomposed ragged tensor \<open>(rag_begins, rag_ends, elems)\<close>. The operators copy
  elements byte-wise, \<open>elem_size\<close> bytes at a time; an element is a value of type \<open>'a\<close>
  here.
\<close>

record 'a ragged_tensor =
  rag_begins :: "i32 list"
  rag_ends :: "i32 list"
  elems :: "'a list"

text \<open>
  One row of \<open>RaggedToDense::evaluate\<close>: \<open>len\<close> is the smaller of \<open>size_t(ends[i] -
  begins[i])\<close> and \<open>target_dim\<close>; \<open>len\<close> elements are copied, the mask gets \<open>len\<close> ones
  and zeros up to \<open>target_dim\<close>, and the default value fills the row.
\<close>

definition RaggedToDense_row ::
  "'a ragged_tensor \<Rightarrow> 'a \<Rightarrow> nat \<Rightarrow> nat \<Rightarrow> 'a list \<times> u8 list \<Rightarrow> error + 'a list \<times> u8 list" where
  "RaggedToDense_row inputs default_value target_dim i st =
     (case st of (out_elems, out_mask) \<Rightarrow>
        (case read_at (rag_begins inputs) i of
           Inl e \<Rightarrow> Inl e
         | Inr b \<Rightarrow>
            (case read_at (rag_ends inputs) i of
               Inl e \<Rightarrow> Inl e
             | Inr en \<Rightarrow>
                (let len = min (size_t_of_i32 (en - b)) target_dim
                 in case read_range (elems inputs) (sint b) (sint b + int len) of
                      Inl e \<Rightarrow> Inl e
                    | Inr copied \<Rightarrow>
                        Inr (out_elems @ copied @ replicate (target_dim - len) default_value,
                             out_mask @ replicate len 1 @ replicate (target_dim - len) 0)))))"

text \<open>
  \<open>RaggedToDense::evaluate\<close>. \<open>target_dim\<close> is the last dimension of the shape that
  validation gave output 0, the input shape extended by the target dimension; both
  outputs are written front to back, and the two final assertions compare what was
  written with the size of that shape.
\<close>

definition RaggedToDense_evaluate ::
  "'a ragged_tensor \<Rightarrow> 'a \<Rightarrow> nat \<Rightarrow> error + 'a list \<times> u8 list" where
  "RaggedToDense_evaluate inputs default_value target_dim =
     (let nelems = length (rag_begins inputs)
      in case for_each (RaggedToDense_row inputs default_value target_dim) [0..<nelems] ([], []) of
           Inl e \<Rightarrow> Inl e
         | Inr (out_elems, out_mask) \<Rightarrow>
             if length out_elems \<noteq> nelems * target_dim then Inl InternalInvariantViolated
             else if length out_mask \<noteq> nelems * target_dim then Inl InternalInvariantViolated
             else Inr (out_elems, out_mask))"

text \<open>
  The specification's ragged tensor: as many row ends as row begins, and
  \<open>0 \<le> rag_begins[i] \<le> rag_ends[i] \<le> len(elems)\<close> for every row.
\<close>

definition spec_ragged_wf :: "'a ragged_tensor \<Rightarrow> bool" where
  "spec_ragged_wf t =
     (length (rag_ends t) = length (rag_begins t) \<and>
      list_all (\<lambda>i. 0 \<le> sint (rag_begins t ! i) \<and>
                     sint (rag_begins t ! i) \<le> sint (rag_ends t ! i) \<and>
                     sint (rag_ends t ! i) \<le> int (length (elems t)))
        [0..<length (rag_begins t)])"

text \<open>
  Row \<open>i\<close> of the dense output and of the mask in the words of the specification:
  the elements from \<open>rag_begins[i]\<close>, as many as the row has but at most \<open>target_dim\<close>,
  then the default value; ones on the copied positions, zeros on the padding.
\<close>

definition spec_row_len :: "'a ragged_tensor \<Rightarrow> nat \<Rightarrow> nat \<Rightarrow> nat" where
  "spec_row_len t target_dim i =
     min (nat (sint (rag_ends t ! i) - sint (rag_begins t ! i))) target_dim"

definition spec_dense_row :: "'a ragged_tensor \<Rightarrow> 'a \<Rightarrow> nat \<Rightarrow> nat \<Rightarrow> 'a list" where
  "spec_dense_row t default_value target_dim i =
     take (spec_row_len t target_dim i) (drop (nat (sint (rag_begins t ! i))) (elems t))
     @ replicate (target_dim - spec_row_len t target_dim i) default_value"

definition spec_mask_row :: "'a ragged_tensor \<Rightarrow> nat \<Rightarrow> nat \<Rightarrow> u8 list" where
  "spec_mask_row t target_dim i =
     replicate (spec_row_len t target_dim i) 1
     @ replicate (target_dim - spec_row_len t target_dim i) 0"

text \<open>Row \<open>i\<close> of a flat row-major buffer whose rows are \<open>width\<close> long.\<close>

definition row_of :: "'b list \<Rightarrow> nat \<Rightarrow> nat \<Rightarrow> 'b list" where
  "row_of flat width i = take width (drop (i * width) flat)"


section \<open>CombineSegments\<close>

text \<open>
  One ragged input of \<open>CombineSegments\<close>: the ragged tensor, the shape of its
  \<open>rag_begins\<close> tensor, and the rank that \<open>get_input_partial_shape\<close> reports for it.
\<close>

record 'a segment = "'a ragged_tensor" +
  shape :: "nat list"
  partial_rank :: nat

text \<open>The two ragged outputs: the combined elements and the segment ids.\<close>

record ('a, 'b) combined_segments =
  out_elem_begins :: "i32 option list"
  out_elem_ends :: "i32 option list"
  out_elems :: "'a list"
  out_id_begins :: "i32 option list"
  out_id_ends :: "i32 option list"
  out_ids :: "'b list"

text \<open>\<open>get_size\<close> of a tensor of the given shape.\<close>

definition shape_size :: "nat list \<Rightarrow> nat" where
  "shape_size s = prod_list s"

text \<open>
  The innermost loop body, for row \<open>i\<close> and input \<open>j\<close>: an input of one row is
  broadcast; \<open>len\<close> elements are copied behind the elements written so far, and the id of
  the segment is written \<open>len\<close> times. The output buffers hold \<open>flat_out_size\<close>
  elements, which the copy must not exceed.
\<close>

definition CombineSegments_segment ::
  "'a segment list \<Rightarrow> 'b list \<Rightarrow> nat \<Rightarrow> nat \<Rightarrow> nat \<Rightarrow> 'a list \<times> 'b list \<times> nat
     \<Rightarrow> error + 'a list \<times> 'b list \<times> nat" where
  "CombineSegments_segment inputs ids flat_out_size i j st =
     (case st of (oe, oi, out_offset) \<Rightarrow>
        (case read_at inputs j of
           Inl e \<Rightarrow> Inl e
         | Inr r \<Rightarrow>
            (let row = (if shape_size (shape r) = 1 then 0 else i)
             in case read_at (rag_begins r) row of
                  Inl e \<Rightarrow> Inl e
                | Inr b \<Rightarrow>
                   (case read_at (rag_ends r) row of
                      Inl e \<Rightarrow> Inl e
                    | Inr en \<Rightarrow>
                       (let len = size_t_of_i32 (en - b)
                        in case read_range (elems r) (sint b) (sint b + int len) of
                             Inl e \<Rightarrow> Inl e
                           | Inr copied \<Rightarrow>
                              if flat_out_size < length oe + len then Inl OutOfBounds
                              else
                                (case read_at ids j of
                                   Inl e \<Rightarrow> Inl e
                                 | Inr seg_id \<Rightarrow>
                                    Inr (oe @ copied, oi @ replicate len seg_id,
                                         out_offset + len)))))))"

text \<open>
  The loop body for row \<open>i\<close>: both outputs get the current \<open>out_offset\<close> as the begin
  of the row, the segments are appended, and both get the new \<open>out_offset\<close> as its end.
\<close>

definition CombineSegments_row ::
  "'a segment list \<Rightarrow> 'b list \<Rightarrow> nat \<Rightarrow> nat
     \<Rightarrow> i32 option list \<times> i32 option list \<times> i32 option list \<times> i32 option list
         \<times> 'a list \<times> 'b list \<times> nat
     \<Rightarrow> error + i32 option list \<times> i32 option list \<times> i32 option list \<times> i32 option list
         \<times> 'a list \<times> 'b list \<times> nat" where
  "CombineSegments_row inputs ids flat_out_size i st =
     (case st of (oeb, oee, oib, oie, oe, oi, out_offset) \<Rightarrow>
        (case write_at oeb i (of_nat out_offset) of
           Inl e \<Rightarrow> Inl e
         | Inr oeb' \<Rightarrow>
            (case write_at oib i (of_nat out_offset) of
               Inl e \<Rightarrow> Inl e
             | Inr oib' \<Rightarrow>
                (case for_each (CombineSegments_segment inputs ids flat_out_size i)
                        [0..<length inputs] (oe, oi, out_offset) of
                   Inl e \<Rightarrow> Inl e
                 | Inr (oe', oi', out_offset') \<Rightarrow>
                    (case write_at oee i (of_nat out_offset') of
                       Inl e \<Rightarrow> Inl e
                     | Inr oee' \<Rightarrow>
                        (case write_at oie i (of_nat out_offset') of
                           Inl e \<Rightarrow> Inl e
                         | Inr oie' \<Rightarrow>
                            Inr (oeb', oee', oib', oie', oe', oi', out_offset')))))))"

text \<open>
  \<open>CombineSegments::evaluate\<close>. The tensors arrive grouped: \<open>inputs\<close> are the ragged
  inputs and \<open>ids\<close> is the last tensor. \<open>ps\<close> is the shape of the last input whose
  partial rank is positive; \<open>inputs[2]\<close> is read for the element type, which needs a
  first ragged input. All elements have one type \<open>'a\<close>, so the assertion on element
  types cannot fail.
\<close>

definition CombineSegments_evaluate ::
  "'a segment list \<Rightarrow> 'b list \<Rightarrow> error + ('a, 'b) combined_segments" where
  "CombineSegments_evaluate inputs ids =
     (let num_of_ragged = length inputs in
      if num_of_ragged \<noteq> length ids then Inl InternalInvariantViolated
      else if inputs = [] then Inl OutOfBounds
      else
        let nelems = map (\<lambda>r. shape_size (shape r)) inputs;
            ps = foldl (\<lambda>ps r. if partial_rank r > 0 then shape r else ps) [] inputs;
            max_nelems = foldl max 0 nelems;
            flat_out_size =
              foldl (\<lambda>acc r. if shape_size (shape r) = 1
                               then acc + max_nelems * length (elems r)
                               else acc + length (elems r)) 0 inputs
        in if max_nelems \<noteq> shape_size ps then Inl InternalInvariantViolated
           else
             (case for_each (CombineSegments_row inputs ids flat_out_size) [0..<max_nelems]
                     (allocate (shape_size ps), allocate (shape_size ps),
                      allocate (shape_size ps), allocate (shape_size ps), [], [], 0) of
                Inl e \<Rightarrow> Inl e
              | Inr (oeb, oee, oib, oie, oe, oi, out_offset) \<Rightarrow>
                  if \<not> out_offset \<le> flat_out_size then Inl InternalInvariantViolated
                  else if length oe \<noteq> out_offset \<or> length oi \<noteq> out_offset
                  then Inl InternalInvariantViolated
                  else Inr \<lparr>out_elem_begins = oeb, out_elem_ends = oee, out_elems = oe,
                            out_id_begins = oib, out_id_ends = oie, out_ids = oi\<rparr>))"

text \<open>
  The loop invariant of the rows: after \<open>k\<close> rows both outputs hold the same row
  ranges, of \<open>n\<close> cells each, and the first \<open>k\<close> cells are written.
\<close>

definition combine_inv ::
  "nat \<Rightarrow> nat \<Rightarrow> i32 option list \<times> i32 option list \<times> i32 option list \<times> i32 option list
     \<times> 'a list \<times> 'b list \<times> nat \<Rightarrow> bool" where
  "combine_inv n k st =
     (case st of (oeb, oee, oib, oie, oe, oi, off) \<Rightarrow>
        oeb = oib \<and> oee = oie \<and> length oeb = n \<and> length oee = n \<and>
        (\<forall>i < k. oeb ! i \<noteq> None \<and> oee ! i \<noteq> None))"


section \<open>SentencepieceTokenizer\<close>

text \<open>
  The status that a call into the SentencePiece library returns.
\<close>

datatype status = OK | NotOK

text \<open>
  The three sparse outputs. \<open>sparse_indices\<close> is the flat vector of \<open>int64\<close> values the
  code fills, two per token.
\<close>

record sparse_output =
  sparse_indices :: "int list"
  sparse_values :: "i32 list"
  sparse_dense_shape :: "int list"

text \<open>
  The sentence \<open>batch_ind\<close> of a parsed packed buffer:
  \<open>string_view(data + begin_ind, end_ind - begin_ind)\<close>, whose length is the \<open>int\<close>
  difference converted to \<open>size_t\<close>.
\<close>

definition packed_sentence :: "u8 list \<Rightarrow> packed_view \<Rightarrow> nat \<Rightarrow> error + u8 list" where
  "packed_sentence packed p batch_ind =
     (case read_i32 packed (begin_ids p + 4 * int batch_ind) of
        Inl e \<Rightarrow> Inl e
      | Inr begin_ind \<Rightarrow>
         (case read_i32 packed (end_ids p + 4 * int batch_ind) of
            Inl e \<Rightarrow> Inl e
          | Inr end_ind \<Rightarrow>
             read_range packed (symbols p + sint begin_ind)
               (symbols p + sint begin_ind + int (size_t_of_i32 (end_ind - begin_ind)))))"

text \<open>
  One iteration of the loop over the batch. \<open>SampleEncode batch_ind sentence\<close> stands for
  the call \<open>m_sp->SampleEncode(sentence, m_nbest_size, m_alpha, &ids)\<close> made in iteration
  \<open>batch_ind\<close>: the processor, a sampler, is outside these sources, and the parameter
  gives the status of each call and what it leaves in \<open>ids\<close>. The macro \<open>CHECK_OK\<close>
  around the call belongs to the SentencePiece library as well and is not defined in
  these sources: what it does with a status is the parameter \<open>CHECK_OK\<close>, which lets
  the loop go on or ends the call. The loop itself does not look at the status.
\<close>

definition SentencepieceTokenizer_sentence ::
  "(status \<Rightarrow> error + unit) \<Rightarrow> (nat \<Rightarrow> u8 list \<Rightarrow> status \<times> i32 list) \<Rightarrow> u8 list
     \<Rightarrow> packed_view \<Rightarrow> nat
     \<Rightarrow> int list \<times> i32 list \<times> nat \<Rightarrow> error + int list \<times> i32 list \<times> nat" where
  "SentencepieceTokenizer_sentence CHECK_OK SampleEncode packed p batch_ind st =
     (case st of (indices, vals, max_token_id) \<Rightarrow>
        (case packed_sentence packed p batch_ind of
           Inl e \<Rightarrow> Inl e
         | Inr sentence \<Rightarrow>
            (case SampleEncode batch_ind sentence of (st, ids) \<Rightarrow>
               (case CHECK_OK st of
                  Inl e \<Rightarrow> Inl e
                | Inr u \<Rightarrow>
                   Inr (indices @ concat (map (\<lambda>token_id. [int batch_ind, int token_id])
                                            [0..<length ids]),
                        vals @ ids,
                        (if max_token_id < length ids then length ids else max_token_id))))))"

text \<open>
  \<open>SentencepieceTokenizer::evaluate\<close> on a packed \<open>u8\<close> tensor of sentences. The loop
  counter is a \<open>size_t\<close> compared with the \<open>int32\<close> batch size.
\<close>

definition SentencepieceTokenizer_evaluate ::
  "(status \<Rightarrow> error + unit) \<Rightarrow> (nat \<Rightarrow> u8 list \<Rightarrow> status \<times> i32 list) \<Rightarrow> u8 list
     \<Rightarrow> error + sparse_output" where
  "SentencepieceTokenizer_evaluate CHECK_OK SampleEncode packed =
     (case parse_packed_strings packed of
        Inl e \<Rightarrow> Inl e
      | Inr p \<Rightarrow>
         (case for_each (SentencepieceTokenizer_sentence CHECK_OK SampleEncode packed p)
                 [0..<size_t_of_i32 (batch_size p)] ([], [], 0) of
            Inl e \<Rightarrow> Inl e
          | Inr (indices, vals, max_token_id) \<Rightarrow>
              Inr \<lparr>sparse_indices = indices, sparse_values = vals,
                   sparse_dense_shape = [sint (batch_size p), int max_token_id]\<rparr>))"


section \<open>Normalizers\<close>

text \<open>
  The output of an operator that writes a begin and an end per element over a flat
  buffer: a string triple (bytes) or a ragged tensor of token ids.
\<close>

record 'c decomposed_out =
  out_begins :: "i32 option list"
  out_ends :: "i32 option list"
  out_flat :: "'c list"

text \<open>
  One iteration of the loop of \<open>evaluate_normalization_helper\<close>: the begin is the size of
  the byte buffer so far, the normalized string is appended, the end is the new size.
  The sizes are \<open>size_t\<close> values stored into \<open>int32\<close> cells.
\<close>

definition normalization_step ::
  "(u8 list \<Rightarrow> u8 list) \<Rightarrow> string_triple \<Rightarrow> nat
     \<Rightarrow> u8 list \<times> i32 option list \<times> i32 option list
     \<Rightarrow> error + u8 list \<times> i32 option list \<times> i32 option list" where
  "normalization_step normalizer inputs i st =
     (case st of (buffer, nb, ne) \<Rightarrow>
        (case write_at nb i (of_nat (length buffer)) of
           Inl e \<Rightarrow> Inl e
         | Inr nb' \<Rightarrow>
            (case read_at (begins inputs) i of
               Inl e \<Rightarrow> Inl e
             | Inr b \<Rightarrow>
                (case read_at (ends inputs) i of
                   Inl e \<Rightarrow> Inl e
                 | Inr en \<Rightarrow>
                    (case read_range (chars inputs) (sint b) (sint en) of
                       Inl e \<Rightarrow> Inl e
                     | Inr str \<Rightarrow>
                        (let buffer' = buffer @ normalizer str
                         in case write_at ne i (of_nat (length buffer')) of
                              Inl e \<Rightarrow> Inl e
                            | Inr ne' \<Rightarrow> Inr (buffer', nb', ne')))))))"

text \<open>
  \<open>evaluate_normalization_helper\<close>: outputs 0 and 1 take the shapes of inputs 0 and 1,
  the loop runs over the size of input 0, and the collected bytes become output 2.
\<close>

definition evaluate_normalization_helper ::
  "(u8 list \<Rightarrow> u8 list) \<Rightarrow> string_triple \<Rightarrow> error + u8 decomposed_out" where
  "evaluate_normalization_helper normalizer inputs =
     (let num_elements = length (begins inputs)
      in case for_each (normalization_step normalizer inputs) [0..<num_elements]
                ([], allocate (length (begins inputs)), allocate (length (ends inputs))) of
           Inl e \<Rightarrow> Inl e
         | Inr (buffer, nb, ne) \<Rightarrow>
             Inr \<lparr>out_begins = nb, out_ends = ne, out_flat = buffer\<rparr>)"

text \<open>
  The three normalizers. The string functions come from the fast_tokenizer library and
  are parameters: \<open>Lowercase\<close>, the four normalization forms, and \<open>Replace\<close> for a
  compiled search pattern and a replacement.
\<close>

definition CaseFold_evaluate ::
  "(u8 list \<Rightarrow> u8 list) \<Rightarrow> string_triple \<Rightarrow> error + u8 decomposed_out" where
  "CaseFold_evaluate Lowercase inputs = evaluate_normalization_helper Lowercase inputs"

definition normalizers ::
  "(u8 list \<Rightarrow> u8 list) \<Rightarrow> (u8 list \<Rightarrow> u8 list) \<Rightarrow> (u8 list \<Rightarrow> u8 list) \<Rightarrow> (u8 list \<Rightarrow> u8 list)
     \<Rightarrow> (string \<times> (u8 list \<Rightarrow> u8 list)) list" where
  "normalizers NFD NFC NFKD NFKC =
     [(''NFD'', NFD), (''NFC'', NFC), (''NFKD'', NFKD), (''NFKC'', NFKC)]"

definition NormalizeUnicode_evaluate ::
  "(u8 list \<Rightarrow> u8 list) \<Rightarrow> (u8 list \<Rightarrow> u8 list) \<Rightarrow> (u8 list \<Rightarrow> u8 list) \<Rightarrow> (u8 list \<Rightarrow> u8 list)
     \<Rightarrow> string \<Rightarrow> string_triple \<Rightarrow> error + u8 decomposed_out" where
  "NormalizeUnicode_evaluate NFD NFC NFKD NFKC m_normalization_form inputs =
     (case map_of (normalizers NFD NFC NFKD NFKC) m_normalization_form of
        None \<Rightarrow> Inl KeyNotFound
      | Some normalizer \<Rightarrow> evaluate_normalization_helper normalizer inputs)"

text \<open>
  \<open>RegexNormalization::evaluate\<close> drops the last byte of the two pattern buffers; the
  length \<open>size - 1\<close> of an empty buffer wraps around in \<open>size_t\<close>, and the view then
  reaches far outside the buffer.
\<close>

definition RegexNormalization_evaluate ::
  "(u8 list \<Rightarrow> u8 list \<Rightarrow> u8 list \<Rightarrow> u8 list) \<Rightarrow> string_triple \<Rightarrow> u8 list \<Rightarrow> u8 list
     \<Rightarrow> error + u8 decomposed_out" where
  "RegexNormalization_evaluate Replace inputs search_pattern_buf replace_pattern_buf =
     (if search_pattern_buf = [] \<or> replace_pattern_buf = [] then Inl OutOfBounds
      else
        let search_pattern = take (length search_pattern_buf - 1) search_pattern_buf;
            replace_pattern = take (length replace_pattern_buf - 1) replace_pattern_buf
        in evaluate_normalization_helper (Replace search_pattern replace_pattern) inputs)"

section \<open>WordpieceTokenizer and BPETokenizer\<close>

text \<open>
  \<open>WordpieceTokenizer::evaluate\<close> and \<open>BPETokenizer::evaluate\<close> end with the same loops,
  statement for statement. \<open>Tokenize\<close> gives the ids of the tokens of a word. One
  iteration of the loop over the words of a row: every id is stored at \<open>offset\<close>, after
  the assertion that \<open>offset\<close> is below the size of output 2.
\<close>

definition tokenizer_word ::
  "(u8 list \<Rightarrow> i32 list) \<Rightarrow> ragged_strings \<Rightarrow> nat \<Rightarrow> i32 \<times> i32 option list
     \<Rightarrow> error + i32 \<times> i32 option list" where
  "tokenizer_word Tokenize inputs i st =
     (case read_at (begins inputs) i of
        Inl e \<Rightarrow> Inl e
      | Inr b \<Rightarrow>
         (case read_at (ends inputs) i of
            Inl e \<Rightarrow> Inl e
          | Inr en \<Rightarrow>
             (case read_range (chars inputs) (sint b) (sint en) of
                Inl e \<Rightarrow> Inl e
              | Inr str \<Rightarrow>
                 for_each (\<lambda>token_id (offset, new_elems).
                             if \<not> size_t_of_i32 offset < length new_elems
                             then Inl InternalInvariantViolated
                             else (case write_at_i32 new_elems offset token_id of
                                     Inl e \<Rightarrow> Inl e
                                   | Inr new_elems' \<Rightarrow> Inr (offset + 1, new_elems')))
                   (Tokenize str) st)))"

definition tokenizer_row ::
  "(u8 list \<Rightarrow> i32 list) \<Rightarrow> ragged_strings \<Rightarrow> nat
     \<Rightarrow> i32 \<times> i32 option list \<times> i32 option list \<times> i32 option list
     \<Rightarrow> error + i32 \<times> i32 option list \<times> i32 option list \<times> i32 option list" where
  "tokenizer_row Tokenize inputs j st =
     (case st of (offset, nb, ne, new_elems) \<Rightarrow>
        (case write_at nb j offset of
           Inl e \<Rightarrow> Inl e
         | Inr nb' \<Rightarrow>
            (case read_at (ragged_begins inputs) j of
               Inl e \<Rightarrow> Inl e
             | Inr rb \<Rightarrow>
                (case read_at (ragged_ends inputs) j of
                   Inl e \<Rightarrow> Inl e
                 | Inr re \<Rightarrow>
                    (case for_each (tokenizer_word Tokenize inputs)
                            [size_t_of_i32 rb..<size_t_of_i32 re] (offset, new_elems) of
                       Inl e \<Rightarrow> Inl e
                     | Inr (offset', new_elems') \<Rightarrow>
                        (case write_at ne j offset' of
                           Inl e \<Rightarrow> Inl e
                         | Inr ne' \<Rightarrow> Inr (offset', nb', ne', new_elems')))))))"

text \<open>
  The loop over the rows and what follows it: output 2, allocated with one cell per
  input character, is cut to \<open>offset\<close> cells, and the final assertion compares
  \<open>offset\<close> with its size.
\<close>

definition tokenizer_rows ::
  "(u8 list \<Rightarrow> i32 list) \<Rightarrow> ragged_strings \<Rightarrow> error + i32 option decomposed_out" where
  "tokenizer_rows Tokenize inputs =
     (let num_elems = length (ragged_begins inputs)
      in case for_each (tokenizer_row Tokenize inputs) [0..<num_elems]
                (0, allocate (length (ragged_begins inputs)), allocate (length (ragged_ends inputs)),
                 allocate (length (chars inputs))) of
           Inl e \<Rightarrow> Inl e
         | Inr (offset, nb, ne, new_elems) \<Rightarrow>
             (let resized = take (size_t_of_i32 offset) new_elems
              in if size_t_of_i32 offset \<noteq> length resized then Inl InternalInvariantViolated
                 else Inr \<lparr>out_begins = nb, out_ends = ne, out_flat = resized\<rparr>))"

text \<open>
  Reading the vocabulary: token \<open>id\<close> is the string \<open>id\<close> of the vocabulary triple; a
  later duplicate replaces an earlier one. The second component collects the string of
  the unknown token for \<open>WordpieceTokenizer\<close>.
\<close>

definition read_vocab ::
  "string_triple \<Rightarrow> nat \<Rightarrow> error + (u8 list \<rightharpoonup> i32) \<times> u8 list" where
  "read_vocab vocab unk_index =
     for_each (\<lambda>id (voc, unk_token).
                 case read_at (begins vocab) id of
                   Inl e \<Rightarrow> Inl e
                 | Inr vb \<Rightarrow>
                    (case read_at (ends vocab) id of
                       Inl e \<Rightarrow> Inl e
                     | Inr ve \<Rightarrow>
                        (case read_range (chars vocab) (sint vb) (sint ve) of
                           Inl e \<Rightarrow> Inl e
                         | Inr token \<Rightarrow>
                            Inr (voc(token \<mapsto> of_nat id),
                                 if id = unk_index then token else unk_token))))
       [0..<length (begins vocab)] (Map.empty, [])"

text \<open>
  \<open>WordpieceTokenizer::evaluate\<close>. A negative \<open>unk_token_id\<close> counts from the end of the
  vocabulary. \<open>FastWordPiece\<close> is the tokenizer of the fast_tokenizer library, built from
  the vocabulary, the unknown token, \<open>m_max_bytes_per_word\<close>, \<open>m_suffix_indicator\<close> and
  \<open>true\<close>.
\<close>

definition WordpieceTokenizer_evaluate ::
  "((u8 list \<rightharpoonup> i32) \<Rightarrow> u8 list \<Rightarrow> int \<Rightarrow> u8 list \<Rightarrow> bool \<Rightarrow> u8 list \<Rightarrow> i32 list)
     \<Rightarrow> u8 list \<Rightarrow> int \<Rightarrow> ragged_strings \<Rightarrow> string_triple \<Rightarrow> i32
     \<Rightarrow> error + i32 option decomposed_out" where
  "WordpieceTokenizer_evaluate FastWordPiece m_suffix_indicator m_max_bytes_per_word
       inputs vocab unk_token_id =
     (let vocab_size = length (begins vocab);
          unk_token_id' = (if sint unk_token_id < 0 then unk_token_id + of_nat vocab_size
                           else unk_token_id)
      in case read_vocab vocab (size_t_of_i32 unk_token_id') of
           Inl e \<Rightarrow> Inl e
         | Inr (voc, unk_token) \<Rightarrow>
             tokenizer_rows
               (FastWordPiece voc unk_token m_max_bytes_per_word m_suffix_indicator True)
               inputs)"

text \<open>
  A merge rule \<open>left right\<close> is cut at its first space; without a space, \<open>find\<close> gives
  \<open>npos\<close>, which is \<open>-1\<close> in the \<open>int delim_pos\<close>, and both parts are the whole string.
\<close>

definition split_merge :: "u8 list \<Rightarrow> u8 list \<times> u8 list" where
  "split_merge merge =
     (if 32 \<in> set merge
      then (takeWhile (\<lambda>c. c \<noteq> 32) merge, drop 1 (dropWhile (\<lambda>c. c \<noteq> 32) merge))
      else (merge, merge))"

definition read_merges :: "string_triple \<Rightarrow> error + (u8 list \<times> u8 list) list" where
  "read_merges merges =
     for_each (\<lambda>id acc.
                 case read_at (begins merges) id of
                   Inl e \<Rightarrow> Inl e
                 | Inr mb \<Rightarrow>
                    (case read_at (ends merges) id of
                       Inl e \<Rightarrow> Inl e
                     | Inr me \<Rightarrow>
                        (case read_range (chars merges) (sint mb) (sint me) of
                           Inl e \<Rightarrow> Inl e
                         | Inr merge \<Rightarrow> Inr (acc @ [split_merge merge]))))
       [0..<length (begins merges)] []"

text \<open>
  \<open>BPETokenizer::evaluate\<close>. \<open>BPE\<close> is the model of the fast_tokenizer library, built from
  the vocabulary, the merges, the cache size 10000, and the optional unknown token,
  suffix indicator and end suffix (each a list of at most one string) and \<open>m_fuse_unk\<close>.
\<close>

definition BPETokenizer_evaluate ::
  "((u8 list \<rightharpoonup> i32) \<Rightarrow> (u8 list \<times> u8 list) list \<Rightarrow> nat \<Rightarrow> u8 list list \<Rightarrow> u8 list list
       \<Rightarrow> u8 list list \<Rightarrow> bool \<Rightarrow> u8 list \<Rightarrow> i32 list)
     \<Rightarrow> u8 list \<Rightarrow> bool \<Rightarrow> u8 list \<Rightarrow> u8 list \<Rightarrow> ragged_strings \<Rightarrow> string_triple \<Rightarrow> string_triple
     \<Rightarrow> error + i32 option decomposed_out" where
  "BPETokenizer_evaluate BPE m_unk_token m_fuse_unk m_suffix_indicator m_end_suffix
       inputs vocab merges =
     (case read_vocab vocab (length (begins vocab)) of
        Inl e \<Rightarrow> Inl e
      | Inr (voc, unused) \<Rightarrow>
         (case read_merges merges of
            Inl e \<Rightarrow> Inl e
          | Inr merge_pairs \<Rightarrow>
             (let unk_token = (if length m_unk_token > 0 then [m_unk_token] else []);
                  suffix_indicator = (if length m_suffix_indicator > 0 then [m_suffix_indicator] else []);
                  end_suffix = (if length m_end_suffix > 0 then [m_end_suffix] else [])
              in tokenizer_rows
                   (BPE voc merge_pairs 10000 unk_token suffix_indicator end_suffix m_fuse_unk)
                   inputs)))"

text \<open>
  A gap-free partition in the words of the claim: as many begins as ends, all written;
  the first begin is 0, every other begin is the end before it, and the last end is the
  length \<open>n\<close> of the flat buffer (an output without elements has an empty buffer).
\<close>

definition spec_gap_free :: "i32 option list \<Rightarrow> i32 option list \<Rightarrow> nat \<Rightarrow> bool" where
  "spec_gap_free bs es n =
     (length bs = length es \<and>
      list_all (\<lambda>i. bs ! i = (if i = 0 then Some 0 else es ! (i - 1)) \<and> es ! i \<noteq> None)
        [0..<length bs] \<and>
      (if es = [] then n = 0
       else (case last es of None \<Rightarrow> False | Some e \<Rightarrow> sint e = int n)))"

text \<open>
  The loop invariant behind it: after \<open>k\<close> elements the cells below \<open>k\<close> are chained,
  and the last end is the current offset \<open>cur\<close>.
\<close>

definition chained :: "nat \<Rightarrow> i32 \<Rightarrow> i32 option list \<Rightarrow> i32 option list \<Rightarrow> bool" where
  "chained k cur bs es =
     ((\<forall>i < k. bs ! i = (if i = 0 then Some 0 else es ! (i - 1)) \<and> es ! i \<noteq> None) \<and>
      (if k = 0 then cur = 0 else es ! (k - 1) = Some cur))"


section \<open>Facts about words and bytes\<close>

lemma unat_u8_less: "unat (b :: u8) < 256"
  using unsigned_less [of b, where ?'a = nat] by simp

lemma byte_step:
  fixes x q :: nat
  assumes "x < 256"
  shows "(x + 256 * q) mod 256 = x" and "(x + 256 * q) div 256 = q"
  using assms by simp_all

lemma bytes_of_i32_of_bytes4:
  "bytes_of_i32 (i32_of_bytes [b0, b1, b2, b3]) = [b0, b1, b2, b3]"
proof -
  define x0 x1 x2 x3 where "x0 = unat b0" and "x1 = unat b1" and "x2 = unat b2" and "x3 = unat b3"
  have lt: "x0 < 256" "x1 < 256" "x2 < 256" "x3 < 256"
    by (simp_all add: x0_def x1_def x2_def x3_def unat_u8_less)
  define q2 where "q2 = x2 + 256 * x3"
  define q1 where "q1 = x1 + 256 * q2"
  define s where "s = x0 + 256 * q1"
  have s_eq: "s = x0 + 256 * x1 + 65536 * x2 + 16777216 * x3"
    by (simp add: s_def q1_def q2_def)
  have s_lt: "s < 2 ^ 32" using lt by (simp add: s_eq)
  have u: "unat (of_nat s :: i32) = s"
    using s_lt by (simp add: unat_of_nat)
  have m0: "s mod 256 = x0" and d0: "s div 256 = q1"
    using byte_step [OF lt(1), of q1] by (simp_all add: s_def)
  have m1: "q1 mod 256 = x1" and d1: "q1 div 256 = q2"
    using byte_step [OF lt(2), of q2] by (simp_all add: q1_def)
  have m2: "q2 mod 256 = x2" and d2: "q2 div 256 = x3"
    using byte_step [OF lt(3), of x3] by (simp_all add: q2_def)
  have e2: "s div 65536 = q2"
    using div_mult2_eq [of s 256 256] by (simp add: d0 d1)
  have e3: "s div 16777216 = x3"
    using div_mult2_eq [of s 65536 256] by (simp add: e2 d2)
  have "bytes_of_i32 (of_nat s) = [of_nat x0, of_nat x1, of_nat x2, of_nat x3]"
    by (simp add: bytes_of_i32_def u m0 d0 m1 e2 m2 e3)
  then show ?thesis
    by (simp add: i32_of_bytes_def s_eq x0_def x1_def x2_def x3_def)
qed

lemma bytes_of_i32_of_bytes:
  assumes "length bs = 4"
  shows "bytes_of_i32 (i32_of_bytes bs) = bs"
proof -
  from assms obtain b0 b1 b2 b3 where "bs = [b0, b1, b2, b3]"
    by (auto simp: length_Suc_conv numeral_eq_Suc)
  then show ?thesis by (simp add: bytes_of_i32_of_bytes4 del: )
qed

lemma size_t_of_i32_nonneg:
  assumes "0 \<le> sint w"
  shows "size_t_of_i32 w = nat (sint w)"
proof -
  have "uint (scast w :: 64 word) = take_bit 64 (sint w)"
    by (simp only: scast_eq uint_word_of_int_eq) simp
  moreover have "take_bit 64 (sint w) = sint w"
  proof -
    have "sint w < 2 ^ 31" using sint_lt [of w] by simp
    also have "(2 :: int) ^ 31 \<le> 2 ^ 64" by (rule power_increasing) simp_all
    finally have "sint w < 2 ^ 64" .
    with assms show ?thesis by (rule take_bit_int_eq_self)
  qed
  ultimately have "uint (scast w :: 64 word) = sint w" by simp
  then show ?thesis
    unfolding size_t_of_i32_def unat_eq_nat_uint by simp
qed

lemma sint_i32_range: "- (2 ^ 31) \<le> sint (w :: i32) \<and> sint w < 2 ^ 31"
  using sint_ge [of w] sint_lt [of w] by simp

lemma sint_mult4:
  assumes "- (2 ^ 29) \<le> sint (w :: i32)" "sint w < 2 ^ 29"
  shows "sint (4 * w) = 4 * sint w"
proof -
  have "sint (4 * w) = signed_take_bit 31 (sint (4 :: i32) * sint w)"
    by (simp add: sint_word_ariths)
  also have "\<dots> = signed_take_bit 31 (4 * sint w)" by simp
  also have "\<dots> = 4 * sint w"
    using assms by (intro signed_take_bit_int_eq_self) simp_all
  finally show ?thesis .
qed

lemma sint_bound:
  assumes "- (2 ^ 29) \<le> sint (w :: i32)" "sint w < 2 ^ 29 - 2"
  shows "sint (4 + 4 + 4 * w) = 8 + 4 * sint w"
proof -
  have "sint (4 + 4 + 4 * w) = sint (8 + 4 * w)" by simp
  also have "\<dots> = signed_take_bit 31 (sint (8 :: i32) + sint (4 * w))"
    by (simp add: sint_word_ariths)
  also have "\<dots> = signed_take_bit 31 (8 + 4 * sint w)"
    using assms by (simp add: sint_mult4)
  also have "\<dots> = 8 + 4 * sint w"
    using assms by (intro signed_take_bit_int_eq_self) simp_all
  finally show ?thesis .
qed

lemma sint_pred:
  assumes "- (2 ^ 31) < sint (w :: i32)"
  shows "sint (w - 1) = sint w - 1"
proof -
  have "sint (w - 1) = signed_take_bit 31 (sint w - sint (1 :: i32))"
    by (simp add: sint_word_ariths)
  also have "\<dots> = signed_take_bit 31 (sint w - 1)" by simp
  also have "\<dots> = sint w - 1"
    using assms sint_lt [of w] by (intro signed_take_bit_int_eq_self) simp_all
  finally show ?thesis .
qed

lemma of_nat_nat_sint:
  assumes "0 \<le> sint (w :: i32)"
  shows "of_nat (nat (sint w)) = w"
proof -
  have "(of_nat (nat (sint w)) :: i32) = of_int (int (nat (sint w)))"
    by (simp only: of_int_of_nat_eq)
  also have "\<dots> = of_int (sint w)" using assms by simp
  also have "\<dots> = w" by simp
  finally show ?thesis .
qed


lemma size_t_of_i32_small:
  "size_t_of_i32 0 = 0" "size_t_of_i32 1 = 1" "size_t_of_i32 2 = 2" "size_t_of_i32 3 = 3"
  "size_t_of_i32 4 = 4" "size_t_of_i32 5 = 5"
  by (simp_all add: size_t_of_i32_def)

lemma replicate_4: "replicate 4 x = [x, x, x, x]"
  by (simp add: numeral_eq_Suc)

lemma sint_diff_nonneg:
  assumes "0 \<le> sint (b :: i32)" "sint b \<le> sint e"
  shows "sint (e - b) = sint e - sint b"
proof -
  have "sint (e - b) = signed_take_bit 31 (sint e - sint b)"
    by (simp add: sint_word_ariths)
  also have "\<dots> = sint e - sint b"
    using assms sint_lt [of e] by (intro signed_take_bit_int_eq_self) simp_all
  finally show ?thesis .
qed

lemma sint_of_nat_small:
  assumes "m < 2 ^ 31"
  shows "sint (of_nat m :: i32) = int m"
proof -
  have "sint (of_nat m :: i32) = signed_take_bit 31 (int m)"
    by (simp add: signed_of_nat)
  also have "\<dots> = int m"
    using assms by (intro signed_take_bit_int_eq_self) simp_all
  finally show ?thesis .
qed

lemma size_t_of_i32_negative:
  assumes "sint w < 0"
  shows "2 ^ 31 \<le> size_t_of_i32 w"
proof -
  have u: "uint (scast w :: 64 word) = take_bit 64 (sint w)"
    by (simp only: scast_eq uint_word_of_int_eq) simp
  have lo: "- (2 ^ 31) \<le> sint w" using sint_ge [of w] by simp
  have "take_bit 64 (sint w) = sint w mod 2 ^ 64" by (simp add: take_bit_eq_mod)
  also have "\<dots> = (sint w + 2 ^ 64) mod 2 ^ 64" by simp
  also have "\<dots> = sint w + 2 ^ 64"
    using lo assms by (intro mod_pos_pos_trivial) simp_all
  finally have "uint (scast w :: 64 word) = sint w + 2 ^ 64" using u by simp
  then have "int (size_t_of_i32 w) = sint w + 2 ^ 64"
    by (simp add: size_t_of_i32_def)
  with lo have "(2 ^ 31 :: int) \<le> int (size_t_of_i32 w)" by simp
  then show ?thesis by (simp only: of_nat_le_iff [symmetric, where ?'a = int]) simp
qed

lemma sint_of_small_size_t:
  assumes "size_t_of_i32 w < 2 ^ 31"
  shows "sint w = int (size_t_of_i32 w)"
proof (cases "0 \<le> sint w")
  case True
  then show ?thesis by (simp add: size_t_of_i32_nonneg)
next
  case False
  then have "2 ^ 31 \<le> size_t_of_i32 w" by (intro size_t_of_i32_negative) simp
  with assms show ?thesis by simp
qed



section \<open>Facts about loops and buffers\<close>

lemma for_each_append:
  "for_each body (xs @ ys) s =
     (case for_each body xs s of Inl e \<Rightarrow> Inl e | Inr s' \<Rightarrow> for_each body ys s')"
  by (induction xs arbitrary: s) (auto split: sum.splits)

lemma for_each_snoc:
  "for_each body (xs @ [x]) s =
     (case for_each body xs s of Inl e \<Rightarrow> Inl e | Inr s' \<Rightarrow> body x s')"
  by (simp add: for_each_append split: sum.splits)

text \<open>
  The invariant rule of a counting loop: what holds before the loop and is kept by every
  iteration that returns holds when the loop returns.
\<close>

lemma for_each_range_invariant:
  assumes "for_each body [lo..<hi] s = Inr s'"
    and "lo \<le> hi"
    and "I lo s"
    and "\<And>k t t'. lo \<le> k \<Longrightarrow> k < hi \<Longrightarrow> I k t \<Longrightarrow> body k t = Inr t' \<Longrightarrow> I (Suc k) t'"
  shows "I hi s'"
  using assms
proof (induction hi arbitrary: s')
  case 0
  then show ?case by simp
next
  case (Suc hi)
  show ?case
  proof (cases "lo = Suc hi")
    case True
    with Suc.prems show ?thesis by simp
  next
    case False
    with Suc.prems have le: "lo \<le> hi" by simp
    then have "[lo..<Suc hi] = [lo..<hi] @ [hi]" by simp
    with Suc.prems(1) obtain t where t: "for_each body [lo..<hi] s = Inr t" and b: "body hi t = Inr s'"
      by (auto simp: for_each_snoc split: sum.splits)
    have "I hi t"
      using t le Suc.prems(3)
    proof (rule Suc.IH)
      fix k u u'
      assume "lo \<le> k" "k < hi" "I k u" "body k u = Inr u'"
      then show "I (Suc k) u'" using Suc.prems(4) [of k u u'] by simp
    qed
    then show ?thesis using Suc.prems(4) [of hi t s'] le b by simp
  qed
qed

lemma write_at_Inr:
  "write_at xs i v = Inr ys \<longleftrightarrow> i < length xs \<and> ys = xs[i := Some v]"
  by (auto simp: write_at_def)


section \<open>Facts about packed string tensors\<close>

lemma read_i32s_in_bounds:
  assumes "int p + 4 * int n \<le> int (length buf)"
  shows "read_i32s buf (int p) n = Inr (map (\<lambda>k. i32_of_bytes (take 4 (drop (p + 4 * k) buf))) [0..<n])"
  using assms
proof (induction n)
  case 0
  then show ?case by (simp add: read_i32s_def)
next
  case (Suc n)
  then have IH: "read_i32s buf (int p) n = Inr (map (\<lambda>k. i32_of_bytes (take 4 (drop (p + 4 * k) buf))) [0..<n])"
    by simp
  have r: "read_i32 buf (int p + 4 * int n) = Inr (i32_of_bytes (take 4 (drop (p + 4 * n) buf)))"
    using Suc.prems by (simp add: read_i32_def nat_add_distrib nat_mult_distrib)
  show ?case
    using IH r by (simp add: read_i32s_def for_each_snoc)
qed

lemma concat_chunks:
  assumes "p + 4 * n \<le> length buf"
  shows "concat (map (\<lambda>k. bytes_of_i32 (i32_of_bytes (take 4 (drop (p + 4 * k) buf)))) [0..<n])
         = take (4 * n) (drop p buf)"
  using assms
proof (induction n)
  case 0
  then show ?case by simp
next
  case (Suc n)
  have len: "length (take 4 (drop (p + 4 * n) buf)) = 4"
    using Suc.prems by simp
  have "take (4 * n + 4) (drop p buf) = take (4 * n) (drop p buf) @ take 4 (drop (4 * n) (drop p buf))"
    by (rule take_add)
  then have t: "take (4 + 4 * n) (drop p buf) = take (4 * n) (drop p buf) @ take 4 (drop (p + 4 * n) buf)"
    by (simp add: add.commute)
  show ?case
    using Suc len by (simp add: t bytes_of_i32_of_bytes)
qed


lemma parse_packed_strings_accepts:
  assumes "4 \<le> length buf"
    and "0 \<le> declared_batch_size buf" and "declared_batch_size buf < 2 ^ 29 - 2"
    and "4 + 4 * (declared_batch_size buf + 1) \<le> int (length buf)"
  shows "parse_packed_strings buf =
           Inr \<lparr>batch_size = i32_of_bytes (take 4 buf), begin_ids = 4, end_ids = 8,
                symbols = 8 + 4 * declared_batch_size buf\<rparr>"
proof -
  let ?w = "i32_of_bytes (take 4 buf)"
  have b: "sint (4 + 4 + 4 * ?w) = 8 + 4 * sint ?w"
    using assms(2,3) by (intro sint_bound) (simp_all add: declared_batch_size_def)
  have m: "sint (4 * ?w) = 4 * sint ?w"
    using assms(2,3) by (intro sint_mult4) (simp_all add: declared_batch_size_def)
  have "size_t_of_i32 (4 + 4 + 4 * ?w) = nat (8 + 4 * sint ?w)"
    using assms(2) b by (simp add: size_t_of_i32_nonneg declared_batch_size_def)
  then show ?thesis
    using assms(1,4) m by (simp add: parse_packed_strings_def declared_batch_size_def Let_def)
qed

lemma parse_packed_strings_rejects:
  assumes "4 \<le> length buf"
    and "0 \<le> declared_batch_size buf" and "declared_batch_size buf < 2 ^ 29 - 2"
    and "int (length buf) < 4 + 4 * (declared_batch_size buf + 1)"
  shows "parse_packed_strings buf = Inl MalformedPackedBuffer"
proof -
  let ?w = "i32_of_bytes (take 4 buf)"
  have b: "sint (4 + 4 + 4 * ?w) = 8 + 4 * sint ?w"
    using assms(2,3) by (intro sint_bound) (simp_all add: declared_batch_size_def)
  have "size_t_of_i32 (4 + 4 + 4 * ?w) = nat (8 + 4 * sint ?w)"
    using assms(2) b by (simp add: size_t_of_i32_nonneg declared_batch_size_def)
  then show ?thesis
    using assms(1,4) by (simp add: parse_packed_strings_def declared_batch_size_def Let_def)
qed

lemma split_packed:
  assumes "8 + 4 * n \<le> length buf"
  shows "take 4 buf @ take 4 (drop 4 buf) @ take (4 * n) (drop 8 buf) @ drop (8 + 4 * n) buf = buf"
proof -
  have "take (4 * n) (drop 8 buf) @ drop (8 + 4 * n) buf = drop 8 buf"
    using append_take_drop_id [of "4 * n" "drop 8 buf"] by (simp add: add.commute)
  moreover have "take 4 (drop 4 buf) @ drop 8 buf = drop 4 buf"
    using append_take_drop_id [of 4 "drop 4 buf"] by simp
  ultimately show ?thesis by simp
qed


section \<open>Facts about the byte-to-char table\<close>

lemma spec_table_run_lookup:
  assumes "b \<le> 256"
  shows "map_of (spec_table_run a b) k =
           (if a \<le> unat k \<and> unat k < b then Some (spec_bytes_to_chars k) else None)"
  using assms
proof (induction b)
  case 0
  then show ?case by (simp add: spec_table_run_def)
next
  case (Suc b)
  have eq: "k = of_nat b \<longleftrightarrow> unat k = b"
  proof
    assume "k = of_nat b"
    then show "unat k = b" using Suc.prems by (simp add: unat_of_nat)
  next
    assume "unat k = b"
    then have "of_nat (unat k) = (of_nat b :: u8)" by simp
    then show "k = of_nat b" by simp
  qed
  show ?case
  proof (cases "a \<le> b")
    case True
    then have "spec_table_run a (Suc b)
                 = spec_table_run a b @ [(of_nat b, spec_bytes_to_chars (of_nat b))]"
      by (simp add: spec_table_run_def)
    then show ?thesis using Suc eq True by (auto simp: map_add_def split: option.splits)
  next
    case False
    then show ?thesis by (auto simp: spec_table_run_def)
  qed
qed

lemma create_bytes_to_chars_map_runs:
  "create_bytes_to_chars_map =
     spec_table_run 33 127 @ spec_table_run 161 173 @ spec_table_run 174 256
     @ spec_table_run 0 33 @ spec_table_run 127 161 @ spec_table_run 173 174"
  unfolding spec_table_run_def create_bytes_to_chars_map_def by code_simp

lemma bytes_to_chars_at_spec: "bytes_to_chars_at b = Inr (spec_bytes_to_chars b)"
proof -
  have "unat b < 256" by (rule unat_u8_less)
  then have "33 \<le> unat b \<and> unat b < 127 \<or> 161 \<le> unat b \<and> unat b < 173
             \<or> 174 \<le> unat b \<and> unat b < 256 \<or> unat b < 33
             \<or> 127 \<le> unat b \<and> unat b < 161 \<or> unat b = 173"
    by arith
  then have "map_of create_bytes_to_chars_map b = Some (spec_bytes_to_chars b)"
    by (auto simp: create_bytes_to_chars_map_runs map_add_def spec_table_run_lookup
             split: option.splits)
  then show ?thesis by (simp add: bytes_to_chars_at_def)
qed

lemma length_spec_bytes_to_chars:
  "length (spec_bytes_to_chars b) = (if 33 \<le> b \<and> b \<le> 126 then 1 else 2)"
  by (simp add: spec_bytes_to_chars_def spec_utf8_two_bytes_def)

lemma bytes_to_chars_string_acc:
  "for_each (\<lambda>b out. case bytes_to_chars_at b of Inl e \<Rightarrow> Inl e | Inr ys \<Rightarrow> Inr (out @ ys)) bs acc
     = Inr (acc @ concat (map spec_bytes_to_chars bs))"
  by (induction bs arbitrary: acc) (simp_all add: bytes_to_chars_at_spec)

lemma bytes_to_chars_string_spec:
  "bytes_to_chars_string bs = Inr (concat (map spec_bytes_to_chars bs))"
  by (simp add: bytes_to_chars_string_def bytes_to_chars_string_acc)

lemma length_concat_spec_bytes_to_chars:
  "length bs \<le> length (concat (map spec_bytes_to_chars bs)) \<and>
   length (concat (map spec_bytes_to_chars bs)) \<le> 2 * length bs"
  by (induction bs) (auto simp: length_spec_bytes_to_chars)


section \<open>Facts about SentencepieceTokenizer\<close>

text \<open>
  What a failed \<open>SampleEncode\<close> does to the batch is decided by \<open>CHECK_OK\<close> alone: the
  evaluation returns only if the check lets the status of every sentence pass.
\<close>

lemma SentencepieceTokenizer_sentence_Inr:
  assumes "SentencepieceTokenizer_sentence CHECK_OK SampleEncode packed p k st = Inr st'"
  shows "\<exists>sentence. packed_sentence packed p k = Inr sentence \<and>
                    CHECK_OK (fst (SampleEncode k sentence)) = Inr ()"
  using assms
  by (auto simp: SentencepieceTokenizer_sentence_def split: prod.splits sum.splits)

lemma SentencepieceTokenizer_returns_only_if_all_checks_pass:
  assumes "SentencepieceTokenizer_evaluate CHECK_OK SampleEncode packed = Inr out"
  shows "\<exists>p. parse_packed_strings packed = Inr p \<and>
             (\<forall>k < size_t_of_i32 (batch_size p).
                \<exists>sentence. packed_sentence packed p k = Inr sentence \<and>
                           CHECK_OK (fst (SampleEncode k sentence)) = Inr ())"
proof -
  from assms obtain p st where p: "parse_packed_strings packed = Inr p"
    and loop: "for_each (SentencepieceTokenizer_sentence CHECK_OK SampleEncode packed p)
                 [0..<size_t_of_i32 (batch_size p)] ([], [], 0) = Inr st"
    by (auto simp: SentencepieceTokenizer_evaluate_def split: sum.splits)
  let ?I = "\<lambda>k (st :: int list \<times> i32 list \<times> nat).
              \<forall>j < k. \<exists>sentence. packed_sentence packed p j = Inr sentence \<and>
                                  CHECK_OK (fst (SampleEncode j sentence)) = Inr ()"
  have "?I (size_t_of_i32 (batch_size p)) st"
  proof (rule for_each_range_invariant [where I = ?I and lo = 0, OF loop])
    show "0 \<le> size_t_of_i32 (batch_size p)" by simp
    show "?I 0 ([], [], 0)" by simp
  next
    fix k t t'
    assume "?I k t" "SentencepieceTokenizer_sentence CHECK_OK SampleEncode packed p k t = Inr t'"
    then show "?I (Suc k) t'"
      using SentencepieceTokenizer_sentence_Inr [of CHECK_OK SampleEncode packed p k t t']
      by (auto simp: less_Suc_eq)
  qed
  with p show ?thesis by blast
qed

text \<open>
  The batch \<open>a\<close>, \<open>b\<close> with an encoder that fails on \<open>b\<close> and leaves its ids empty,
  under the two possible checks: one that ends the call on a status that is not OK, and
  one that lets every status pass.
\<close>

lemma SentencepieceTokenizer_example_check_ends_call:
  "SentencepieceTokenizer_evaluate (\<lambda>st. if st = OK then Inr () else Inl SentencePieceEncode)
     (\<lambda>k s. if s = [98] then (NotOK, []) else (OK, [7, 8]))
     [2,0,0,0, 0,0,0,0, 1,0,0,0, 2,0,0,0, 97, 98] = Inl SentencePieceEncode"
proof -
  let ?B = "[2,0,0,0, 0,0,0,0, 1,0,0,0, 2,0,0,0, 97, 98] :: u8 list"
  have p: "parse_packed_strings ?B =
      Inr \<lparr>batch_size = 2, begin_ids = 4, end_ids = 8, symbols = 16\<rparr>"
    by (simp add: parse_packed_strings_def i32_of_bytes_def size_t_of_i32_def)
  show ?thesis
    by (simp add: SentencepieceTokenizer_evaluate_def p SentencepieceTokenizer_sentence_def
          packed_sentence_def read_i32_def i32_of_bytes_def read_range_def
          size_t_of_i32_small upt_rec)
qed

lemma SentencepieceTokenizer_example_check_passes:
  "SentencepieceTokenizer_evaluate (\<lambda>st. Inr ())
     (\<lambda>k s. if s = [98] then (NotOK, []) else (OK, [7, 8]))
     [2,0,0,0, 0,0,0,0, 1,0,0,0, 2,0,0,0, 97, 98]
   = Inr \<lparr>sparse_indices = [0, 0, 0, 1], sparse_values = [7, 8],
          sparse_dense_shape = [2, 2]\<rparr>"
proof -
  let ?B = "[2,0,0,0, 0,0,0,0, 1,0,0,0, 2,0,0,0, 97, 98] :: u8 list"
  have p: "parse_packed_strings ?B =
      Inr \<lparr>batch_size = 2, begin_ids = 4, end_ids = 8, symbols = 16\<rparr>"
    by (simp add: parse_packed_strings_def i32_of_bytes_def size_t_of_i32_def)
  show ?thesis
    by (simp add: SentencepieceTokenizer_evaluate_def p SentencepieceTokenizer_sentence_def
          packed_sentence_def read_i32_def i32_of_bytes_def read_range_def
          size_t_of_i32_small upt_rec)
qed


section \<open>Facts about RaggedToDense\<close>

lemma row_of_concat:
  assumes "\<forall>xs \<in> set xss. length xs = w" "i < length xss"
  shows "row_of (concat xss) w i = xss ! i"
  using assms
proof (induction xss arbitrary: i)
  case Nil
  then show ?case by simp
next
  case (Cons xs xss)
  then have len: "length xs = w" by simp
  show ?case
  proof (cases i)
    case 0
    with len show ?thesis by (simp add: row_of_def)
  next
    case (Suc k)
    have "drop (Suc k * w) (xs @ concat xss) = drop (k * w) (concat xss)"
      using len by simp
    with Suc Cons show ?thesis by (simp add: row_of_def)
  qed
qed

lemma length_concat_rows:
  assumes "\<forall>xs \<in> set xss. length xs = w"
  shows "length (concat xss) = length xss * w"
  using assms by (induction xss) simp_all

lemma RaggedToDense_row_wf:
  assumes "spec_ragged_wf t" "i < length (rag_begins t)"
  shows "RaggedToDense_row t dv td i (oe, om) =
           Inr (oe @ spec_dense_row t dv td i, om @ spec_mask_row t td i)"
proof -
  let ?b = "rag_begins t ! i" and ?e = "rag_ends t ! i"
  from assms have le: "length (rag_ends t) = length (rag_begins t)"
    and b0: "0 \<le> sint ?b" and be: "sint ?b \<le> sint ?e" and el: "sint ?e \<le> int (length (elems t))"
    by (auto simp: spec_ragged_wf_def list_all_iff)
  have d: "sint (?e - ?b) = sint ?e - sint ?b" using b0 be by (rule sint_diff_nonneg)
  have sz: "size_t_of_i32 (?e - ?b) = nat (sint ?e - sint ?b)"
    using be d by (simp add: size_t_of_i32_nonneg)
  define len where "len = spec_row_len t td i"
  have len_eq: "min (size_t_of_i32 (?e - ?b)) td = len"
    by (simp add: len_def spec_row_len_def sz)
  have len_le: "int len \<le> sint ?e - sint ?b"
    using be by (simp add: len_def spec_row_len_def)
  have rr: "read_range (elems t) (sint ?b) (sint ?b + int len)
              = Inr (take len (drop (nat (sint ?b)) (elems t)))"
    using b0 len_le el by (auto simp: read_range_def)
  show ?thesis
    using assms(2) le
    by (simp add: RaggedToDense_row_def read_at_def len_eq rr Let_def
          spec_dense_row_def spec_mask_row_def len_def [symmetric])
qed

lemma RaggedToDense_loop_wf:
  assumes "spec_ragged_wf t" "\<forall>i \<in> set is. i < length (rag_begins t)"
  shows "for_each (RaggedToDense_row t dv td) is (oe, om) =
           Inr (oe @ concat (map (spec_dense_row t dv td) is),
                om @ concat (map (spec_mask_row t td) is))"
  using assms(2)
proof (induction "is" arbitrary: oe om)
  case Nil
  then show ?case by simp
next
  case (Cons i "is")
  then show ?case
    using RaggedToDense_row_wf [OF assms(1), of i dv td oe om] by simp
qed

lemma length_spec_dense_row:
  assumes "spec_ragged_wf t" "i < length (rag_begins t)"
  shows "length (spec_dense_row t dv td i) = td"
proof -
  from assms have b0: "0 \<le> sint (rag_begins t ! i)"
    and be: "sint (rag_begins t ! i) \<le> sint (rag_ends t ! i)"
    and el: "sint (rag_ends t ! i) \<le> int (length (elems t))"
    by (auto simp: spec_ragged_wf_def list_all_iff)
  then show ?thesis
    by (auto simp: spec_dense_row_def spec_row_len_def)
qed

lemma length_spec_mask_row: "length (spec_mask_row t td i) = td"
  by (auto simp: spec_mask_row_def spec_row_len_def)



section \<open>Facts about CombineSegments\<close>

lemma CombineSegments_row_Inr:
  assumes "CombineSegments_row inputs ids fos k (oeb, oee, oib, oie, oe, oi, off)
             = Inr (oeb', oee', oib', oie', oe', oi', off')"
  shows "\<exists>v w. k < length oeb \<and> k < length oee \<and> k < length oib \<and> k < length oie \<and>
               oeb' = oeb[k := Some v] \<and> oib' = oib[k := Some v] \<and>
               oee' = oee[k := Some w] \<and> oie' = oie[k := Some w]"
  using assms
  by (auto simp: CombineSegments_row_def write_at_Inr split: sum.splits prod.splits)

lemma combine_inv_step:
  assumes "combine_inv n k st" "CombineSegments_row inputs ids fos k st = Inr st'"
  shows "combine_inv n (Suc k) st'"
proof -
  obtain oeb oee oib oie oe oi off where st: "st = (oeb, oee, oib, oie, oe, oi, off)"
    by (cases st) auto
  obtain oeb' oee' oib' oie' oe' oi' off' where st': "st' = (oeb', oee', oib', oie', oe', oi', off')"
    by (cases st') auto
  from CombineSegments_row_Inr [OF assms(2) [unfolded st st']]
  obtain v w where k: "k < length oeb" "k < length oee"
    and upd: "oeb' = oeb[k := Some v]" "oib' = oib[k := Some v]"
             "oee' = oee[k := Some w]" "oie' = oie[k := Some w]"
    by blast
  from assms(1) have inv: "oeb = oib" "oee = oie" "length oeb = n" "length oee = n"
    "\<forall>i < k. oeb ! i \<noteq> None \<and> oee ! i \<noteq> None"
    by (auto simp: combine_inv_def st)
  have "\<forall>i < Suc k. oeb' ! i \<noteq> None \<and> oee' ! i \<noteq> None"
    using inv(5) k upd by (auto simp: nth_list_update less_Suc_eq)
  then show ?thesis
    using inv upd by (simp add: combine_inv_def st')
qed

lemma CombineSegments_evaluate_Inr:
  assumes "CombineSegments_evaluate inputs ids = Inr out"
  shows "\<exists>n fos oeb oee oib oie oe oi off.
           for_each (CombineSegments_row inputs ids fos) [0..<n]
             (allocate n, allocate n, allocate n, allocate n, [], [], 0)
             = Inr (oeb, oee, oib, oie, oe, oi, off) \<and>
           out = \<lparr>out_elem_begins = oeb, out_elem_ends = oee, out_elems = oe,
                   out_id_begins = oib, out_id_ends = oie, out_ids = oi\<rparr>"
  using assms unfolding CombineSegments_evaluate_def Let_def
  apply (clarsimp split: if_splits sum.splits prod.splits)
  apply blast
  done


section \<open>Facts about normalizers and tokenizers\<close>

lemma chained_step:
  assumes "chained k cur bs es" "k < length bs" "k < length es"
  shows "chained (Suc k) cur' (bs[k := Some cur]) (es[k := Some cur'])"
proof -
  from assms(1) have old: "\<forall>i < k. bs ! i = (if i = 0 then Some 0 else es ! (i - 1)) \<and> es ! i \<noteq> None"
    and cur: "if k = 0 then cur = 0 else es ! (k - 1) = Some cur"
    unfolding chained_def by blast+
  have "\<forall>i < Suc k. (bs[k := Some cur]) ! i
            = (if i = 0 then Some 0 else (es[k := Some cur']) ! (i - 1))
          \<and> (es[k := Some cur']) ! i \<noteq> None"
  proof (intro allI impI)
    fix i assume "i < Suc k"
    then consider "i < k" | "i = k" by linarith
    then show "(bs[k := Some cur]) ! i
            = (if i = 0 then Some 0 else (es[k := Some cur']) ! (i - 1))
          \<and> (es[k := Some cur']) ! i \<noteq> None"
    proof cases
      case 1
      then show ?thesis using old assms(2,3) by (auto simp: nth_list_update)
    next
      case 2
      then show ?thesis using cur assms(2,3) by (auto simp: nth_list_update)
    qed
  qed
  then show ?thesis using assms(3) by (simp add: chained_def)
qed

lemma chained_gap_free:
  assumes "chained n cur bs es" "length bs = n" "length es = n" "sint cur = int m"
  shows "spec_gap_free bs es m"
proof (cases "n = 0")
  case True
  with assms show ?thesis by (simp add: spec_gap_free_def chained_def)
next
  case False
  with assms(3) have ne: "es \<noteq> []" by auto
  have "last es = es ! (n - 1)" using ne assms(3) by (simp add: last_conv_nth)
  with assms False ne show ?thesis
    by (auto simp: spec_gap_free_def chained_def list_all_iff)
qed

lemma normalization_step_Inr:
  assumes "normalization_step f t k (buffer, nb, ne) = Inr (buffer', nb', ne')"
  shows "k < length nb \<and> k < length ne \<and> nb' = nb[k := Some (of_nat (length buffer))] \<and>
         ne' = ne[k := Some (of_nat (length buffer'))]"
  using assms
  by (auto simp: normalization_step_def write_at_Inr Let_def split: sum.splits)

lemma tokenizer_row_Inr:
  assumes "tokenizer_row Tokenize t k (offset, nb, ne, el) = Inr (offset', nb', ne', el')"
  shows "k < length nb \<and> k < length ne \<and> nb' = nb[k := Some offset] \<and>
         ne' = ne[k := Some offset']"
  using assms
  by (auto simp: tokenizer_row_def write_at_Inr split: sum.splits prod.splits)


lemma normalization_helper_gap_free:
  assumes ev: "evaluate_normalization_helper f t = Inr out"
    and same: "length (begins t) = length (ends t)"
    and small: "length (out_flat out) < 2 ^ 31"
  shows "spec_gap_free (out_begins out) (out_ends out) (length (out_flat out))"
proof -
  define n where "n = length (begins t)"
  let ?I = "\<lambda>k (st :: u8 list \<times> i32 option list \<times> i32 option list).
              case st of (buffer, nb, ne) \<Rightarrow>
                chained k (of_nat (length buffer)) nb ne \<and> length nb = n \<and> length ne = n"
  from ev obtain buffer nb ne where
    loop: "for_each (normalization_step f t) [0..<n] ([], allocate n, allocate n)
             = Inr (buffer, nb, ne)"
    and out: "out = \<lparr>out_begins = nb, out_ends = ne, out_flat = buffer\<rparr>"
    using same
    by (auto simp: evaluate_normalization_helper_def Let_def n_def split: sum.splits)
  have "?I n (buffer, nb, ne)"
  proof (rule for_each_range_invariant [where I = ?I and lo = 0, OF loop])
    show "0 \<le> n" by simp
    show "?I 0 ([], allocate n, allocate n)" by (simp add: chained_def allocate_def)
  next
    fix k st st'
    assume k: "k < n" and inv: "?I k st" and step: "normalization_step f t k st = Inr st'"
    obtain b1 nb1 ne1 where st: "st = (b1, nb1, ne1)" by (cases st) auto
    obtain b2 nb2 ne2 where st': "st' = (b2, nb2, ne2)" by (cases st') auto
    from normalization_step_Inr [OF step [unfolded st st']]
    have upd: "k < length nb1" "k < length ne1" "nb2 = nb1[k := Some (of_nat (length b1))]"
      "ne2 = ne1[k := Some (of_nat (length b2))]"
      by simp_all
    from inv have c: "chained k (of_nat (length b1)) nb1 ne1" and l: "length nb1 = n" "length ne1 = n"
      by (simp_all add: st)
    from chained_step [OF c upd(1,2), of "of_nat (length b2)"] l
    show "?I (Suc k) st'" by (simp add: st' upd)
  qed
  then have c: "chained n (of_nat (length buffer)) nb ne" and l: "length nb = n" "length ne = n"
    by simp_all
  have "sint (of_nat (length buffer) :: i32) = int (length buffer)"
    using small by (intro sint_of_nat_small) (simp add: out)
  from chained_gap_free [OF c l this] show ?thesis by (simp add: out)
qed

lemma tokenizer_rows_gap_free:
  assumes ev: "tokenizer_rows Tokenize t = Inr out"
    and same: "length (ragged_begins t) = length (ragged_ends t)"
    and small: "length (out_flat out) < 2 ^ 31"
  shows "spec_gap_free (out_begins out) (out_ends out) (length (out_flat out))"
proof -
  define n where "n = length (ragged_begins t)"
  let ?I = "\<lambda>k (st :: i32 \<times> i32 option list \<times> i32 option list \<times> i32 option list).
              case st of (offset, nb, ne, el) \<Rightarrow>
                chained k offset nb ne \<and> length nb = n \<and> length ne = n"
  from ev obtain offset nb ne el where
    loop: "for_each (tokenizer_row Tokenize t) [0..<n]
             (0, allocate n, allocate n, allocate (length (chars t))) = Inr (offset, nb, ne, el)"
    and len: "size_t_of_i32 offset = length (take (size_t_of_i32 offset) el)"
    and out: "out = \<lparr>out_begins = nb, out_ends = ne,
                      out_flat = take (size_t_of_i32 offset) el\<rparr>"
    using same
    by (auto simp: tokenizer_rows_def Let_def n_def split: sum.splits if_splits)
  have "?I n (offset, nb, ne, el)"
  proof (rule for_each_range_invariant [where I = ?I and lo = 0, OF loop])
    show "0 \<le> n" by simp
    show "?I 0 (0, allocate n, allocate n, allocate (length (chars t)))"
      by (simp add: chained_def allocate_def)
  next
    fix k st st'
    assume k: "k < n" and inv: "?I k st" and step: "tokenizer_row Tokenize t k st = Inr st'"
    obtain o1 nb1 ne1 el1 where st: "st = (o1, nb1, ne1, el1)" by (cases st) auto
    obtain o2 nb2 ne2 el2 where st': "st' = (o2, nb2, ne2, el2)" by (cases st') auto
    from tokenizer_row_Inr [OF step [unfolded st st']]
    have upd: "k < length nb1" "k < length ne1" "nb2 = nb1[k := Some o1]"
      "ne2 = ne1[k := Some o2]"
      by simp_all
    from inv have c: "chained k o1 nb1 ne1" and l: "length nb1 = n" "length ne1 = n"
      by (simp_all add: st)
    from chained_step [OF c upd(1,2), of o2] l
    show "?I (Suc k) st'" by (simp add: st' upd)
  qed
  then have c: "chained n offset nb ne" and l: "length nb = n" "length ne = n"
    by simp_all
  have fl: "length (out_flat out) = size_t_of_i32 offset" using len by (simp add: out)
  have "sint offset = int (length (out_flat out))"
    using small fl sint_of_small_size_t [of offset] by simp
  from chained_gap_free [OF c l this] show ?thesis by (simp add: out)
qed

lemma WordpieceTokenizer_evaluate_Inr:
  assumes "WordpieceTokenizer_evaluate F suffix maxb t vocab unk = Inr out"
  shows "\<exists>Tokenize. tokenizer_rows Tokenize t = Inr out"
  using assms
  by (auto simp: WordpieceTokenizer_evaluate_def Let_def split: sum.splits prod.splits)

lemma BPETokenizer_evaluate_Inr:
  assumes "BPETokenizer_evaluate B unk fuse suffix endsuf t vocab merges = Inr out"
  shows "\<exists>Tokenize. tokenizer_rows Tokenize t = Inr out"
  using assms
  by (auto simp: BPETokenizer_evaluate_def Let_def split: sum.splits prod.splits)


lemma normalization_helper_example:
  "evaluate_normalization_helper (\<lambda>s. s @ s) \<lparr>begins = [0, 1], ends = [1, 3], chars = [97, 98, 99]\<rparr>
   = Inr \<lparr>out_begins = [Some 0, Some 2], out_ends = [Some 2, Some 6],
          out_flat = [97, 97, 98, 99, 98, 99]\<rparr>"
  by (simp add: evaluate_normalization_helper_def normalization_step_def read_at_def
        read_range_def write_at_def allocate_def upt_rec numeral_2_eq_2)

lemma WordpieceTokenizer_example:
  "WordpieceTokenizer_evaluate (\<lambda>voc unk maxb suf flag s. [of_nat (length s), 9]) [35, 35] 100
     \<lparr>begins = [0, 1], ends = [1, 3], chars = [97, 98, 99, 100], ragged_begins = [0], ragged_ends = [2]\<rparr>
     \<lparr>begins = [0], ends = [1], chars = [97]\<rparr> 0
   = Inr \<lparr>out_begins = [Some 0], out_ends = [Some 4],
          out_flat = [Some 1, Some 9, Some 2, Some 9]\<rparr>"
  by (simp add: WordpieceTokenizer_evaluate_def read_vocab_def tokenizer_rows_def tokenizer_row_def
        tokenizer_word_def read_at_def read_range_def write_at_def write_at_i32_def allocate_def
        size_t_of_i32_small upt_rec replicate_4)

lemma BPETokenizer_example:
  "BPETokenizer_evaluate (\<lambda>voc mrg cache unk suf esuf fuse s. [of_nat (length s), 9]) [] False [] []
     \<lparr>begins = [0, 1], ends = [1, 3], chars = [97, 98, 99, 100], ragged_begins = [0], ragged_ends = [2]\<rparr>
     \<lparr>begins = [0], ends = [1], chars = [97]\<rparr> \<lparr>begins = [0], ends = [3], chars = [97, 32, 98]\<rparr>
   = Inr \<lparr>out_begins = [Some 0], out_ends = [Some 4],
          out_flat = [Some 1, Some 9, Some 2, Some 9]\<rparr>"
  by (simp add: BPETokenizer_evaluate_def read_vocab_def read_merges_def split_merge_def
        tokenizer_rows_def tokenizer_row_def
        tokenizer_word_def read_at_def read_range_def write_at_def write_at_i32_def allocate_def
        size_t_of_i32_small upt_rec replicate_4)



section \<open>Claims about packed string tensors\<close>

text \<open>
  Claim C2. For every canonical packed string buffer (batch size \<open>N \<ge> 0\<close>, first offset 0,
  payload of exactly \<open>offsets[N]\<close> bytes), \<open>StringTensorUnpack\<close> returns a triple and
  \<open>StringTensorPack\<close> of that triple is the original buffer, byte for byte. The buffer
  is shorter than \<open>2 ^ 31\<close> bytes, so that its \<open>int32\<close> fields can describe it.
\<close>

theorem pack_unpack_identity:
  assumes canon: "spec_canonical_packed buf" and small: "length buf < 2 ^ 31"
  shows "\<exists>t. StringTensorUnpack_evaluate buf = Inr t \<and> StringTensorPack_evaluate t = Inr buf"
proof -
  define w where "w = i32_of_bytes (take 4 buf)"
  define N where "N = declared_batch_size buf"
  define n where "n = nat N"
  have Nw: "N = sint w" by (simp add: N_def w_def declared_batch_size_def)
  from canon obtain final where
    len4: "4 \<le> length buf" and N0: "0 \<le> N" and hdr: "4 * (N + 2) \<le> int (length buf)"
    and first: "read_i32 buf 4 = Inr 0"
    and fin: "read_i32 buf (4 + 4 * N) = Inr final"
    and fin0: "0 \<le> sint final" and total: "int (length buf) = 4 * (N + 2) + sint final"
    by (auto simp: spec_canonical_packed_def Let_def N_def declared_batch_size_def split: sum.splits)
  have Nn: "N = int n" using N0 by (simp add: n_def)
  have Nsmall: "N < 2 ^ 29 - 2" using hdr small by simp
  have hdr_n: "8 + 4 * n \<le> length buf" using hdr Nn by simp
  have parse: "parse_packed_strings buf =
      Inr \<lparr>batch_size = w, begin_ids = 4, end_ids = 8, symbols = 8 + 4 * N\<rparr>"
    unfolding w_def N_def
    using len4 N0 Nsmall hdr by (intro parse_packed_strings_accepts) (simp_all add: N_def)
  have pred: "sint (w - 1) = N - 1"
    using N0 by (simp add: sint_pred Nw [symmetric])
  have sz: "size_t_of_i32 w = n"
    using N0 by (simp add: size_t_of_i32_nonneg Nw [symmetric] n_def)
  define bs where "bs = map (\<lambda>k. i32_of_bytes (take 4 (drop (4 + 4 * k) buf))) [0..<n]"
  define es where "es = map (\<lambda>k. i32_of_bytes (take 4 (drop (8 + 4 * k) buf))) [0..<n]"
  have rb: "read_i32s buf 4 n = Inr bs"
    using read_i32s_in_bounds [of 4 n buf] hdr_n by (simp add: bs_def)
  have re: "read_i32s buf 8 n = Inr es"
    using read_i32s_in_bounds [of 8 n buf] hdr_n by (simp add: es_def)
  have rc: "read_range buf (8 + 4 * N) (8 + 4 * N + sint final) = Inr (drop (8 + 4 * n) buf)"
    using total fin0 Nn by (simp add: read_range_def nat_add_distrib nat_mult_distrib)
  define t where "t = \<lparr>begins = bs, ends = es, chars = drop (8 + 4 * n) buf\<rparr>"
  have "8 + 4 * sint (w - 1) = 4 + 4 * N" using pred by simp
  then have nc: "read_i32 buf (8 + 4 * sint (w - 1)) = Inr final" by (simp only: fin)
  have unpack: "StringTensorUnpack_evaluate buf = Inr t"
    using N0 fin0 by (simp add: StringTensorUnpack_evaluate_def parse nc sz rb re rc t_def Nw [symmetric])
  have b0: "bytes_of_i32 (of_nat n) = take 4 buf"
  proof -
    have "(of_nat n :: i32) = w" using N0 of_nat_nat_sint [of w] by (simp add: n_def Nw)
    then show ?thesis using len4 by (simp add: w_def bytes_of_i32_of_bytes)
  qed
  have b1: "bytes_of_i32 0 = take 4 (drop 4 buf)"
  proof -
    have "i32_of_bytes (take 4 (drop 4 buf)) = 0"
      using first by (simp add: read_i32_def split: if_splits)
    moreover have "length (take 4 (drop 4 buf)) = 4" using hdr_n by simp
    ultimately show ?thesis using bytes_of_i32_of_bytes [of "take 4 (drop 4 buf)"] by simp
  qed
  have b2: "concat (map bytes_of_i32 es) = take (4 * n) (drop 8 buf)"
    using concat_chunks [of 8 n buf] hdr_n by (simp add: es_def o_def)
  have lens: "length bs = n" "length es = n" by (simp_all add: bs_def es_def)
  have out: "bytes_of_i32 (of_nat n) @ bytes_of_i32 0 @ concat (map bytes_of_i32 es)
             @ drop (8 + 4 * n) buf = buf"
    using split_packed [OF hdr_n] by (simp only: b0 b1 b2)
  have "StringTensorPack_evaluate t = Inr buf"
    using hdr_n by (simp add: StringTensorPack_evaluate_def t_def Let_def lens out)
  with unpack show ?thesis by blast
qed

theorem pack_unpack_identity_witness:
  "spec_canonical_packed [2,0,0,0, 0,0,0,0, 1,0,0,0, 3,0,0,0, 97,98,99] \<and>
   (\<exists>t. StringTensorUnpack_evaluate [2,0,0,0, 0,0,0,0, 1,0,0,0, 3,0,0,0, 97,98,99] = Inr t \<and>
        StringTensorPack_evaluate t = Inr [2,0,0,0, 0,0,0,0, 1,0,0,0, 3,0,0,0, 97,98,99])"
proof -
  let ?B = "[2,0,0,0, 0,0,0,0, 1,0,0,0, 3,0,0,0, 97,98,99] :: u8 list"
  have c: "spec_canonical_packed ?B"
    by (simp add: spec_canonical_packed_def read_i32_def i32_of_bytes_def)
  have s: "length ?B < 2 ^ 31" by simp
  from pack_unpack_identity [OF c s] c show ?thesis by simp
qed

text \<open>
  Claim C3, as stated, fails: a buffer of twelve bytes declaring one string whose end
  offset is 100 passes \<open>parse_packed_strings\<close>, although \<open>offsets[N] = 100\<close> exceeds
  \<open>total_bytes - 4 * (N + 2) = 0\<close>, and \<open>StringTensorUnpack\<close> then reads past the end
  of the buffer.
\<close>

theorem packed_offsets_unchecked_counterexample:
  "parse_packed_strings [1,0,0,0, 0,0,0,0, 100,0,0,0] =
     Inr \<lparr>batch_size = 1, begin_ids = 4, end_ids = 8, symbols = 12\<rparr> \<and>
   read_i32 [1,0,0,0, 0,0,0,0, 100,0,0,0] (4 + 4 * 1) = Inr 100 \<and>
   StringTensorUnpack_evaluate [1,0,0,0, 0,0,0,0, 100,0,0,0] = Inl OutOfBounds"
proof -
  let ?B = "[1,0,0,0, 0,0,0,0, 100,0,0,0] :: u8 list"
  have p: "parse_packed_strings ?B =
      Inr \<lparr>batch_size = 1, begin_ids = 4, end_ids = 8, symbols = 12\<rparr>"
    by (simp add: parse_packed_strings_def i32_of_bytes_def size_t_of_i32_def)
  have r: "read_i32 ?B 8 = Inr 100"
    by (simp add: read_i32_def i32_of_bytes_def)
  have s: "size_t_of_i32 1 = 1" by (simp add: size_t_of_i32_def)
  have b: "read_i32s ?B 4 (Suc 0) = Inr [0]"
    by (simp add: read_i32s_def read_i32_def i32_of_bytes_def)
  have e: "read_i32s ?B 8 (Suc 0) = Inr [100]"
    by (simp add: read_i32s_def read_i32_def i32_of_bytes_def)
  have "StringTensorUnpack_evaluate ?B = Inl OutOfBounds"
    by (simp add: StringTensorUnpack_evaluate_def p r s b e read_range_def)
  with p r show ?thesis by simp
qed

text \<open>
  Claim C3, amended. A buffer shorter than four bytes is rejected with
  \<open>MalformedPackedBuffer\<close>. For a buffer of at least four bytes whose declared batch size
  \<open>N\<close> satisfies \<open>0 \<le> N < 2 ^ 29 - 2\<close> (so that \<open>4 + 4 + 4 * N\<close> does not overflow
  \<open>int\<close>), the reader fails with \<open>MalformedPackedBuffer\<close> exactly when the byte length is
  less than \<open>4 + 4 * (N + 1)\<close>. This is the only check: an accepted buffer is
  accepted whatever its offsets are, and what the check guarantees is that the
  \<open>N + 1\<close> offsets themselves lie inside the buffer.
\<close>

theorem parse_packed_strings_header_check_only:
  "(length buf < 4 \<longrightarrow> parse_packed_strings buf = Inl MalformedPackedBuffer) \<and>
   (4 \<le> length buf \<and> 0 \<le> declared_batch_size buf \<and> declared_batch_size buf < 2 ^ 29 - 2 \<longrightarrow>
      (parse_packed_strings buf = Inl MalformedPackedBuffer
         \<longleftrightarrow> int (length buf) < 4 + 4 * (declared_batch_size buf + 1)) \<and>
      (4 + 4 * (declared_batch_size buf + 1) \<le> int (length buf) \<longrightarrow>
         parse_packed_strings buf =
           Inr \<lparr>batch_size = i32_of_bytes (take 4 buf), begin_ids = 4, end_ids = 8,
                symbols = 8 + 4 * declared_batch_size buf\<rparr> \<and>
         (\<forall>k \<in> {0 .. declared_batch_size buf}. \<exists>w. read_i32 buf (4 + 4 * k) = Inr w)))"
proof (intro conjI impI)
  assume "length buf < 4"
  then show "parse_packed_strings buf = Inl MalformedPackedBuffer"
    by (simp add: parse_packed_strings_def)
next
  assume a: "4 \<le> length buf \<and> 0 \<le> declared_batch_size buf \<and> declared_batch_size buf < 2 ^ 29 - 2"
  show "parse_packed_strings buf = Inl MalformedPackedBuffer
         \<longleftrightarrow> int (length buf) < 4 + 4 * (declared_batch_size buf + 1)"
  proof (cases "int (length buf) < 4 + 4 * (declared_batch_size buf + 1)")
    case True
    with a show ?thesis using parse_packed_strings_rejects [of buf] by simp
  next
    case False
    with a show ?thesis using parse_packed_strings_accepts [of buf] by simp
  qed
next
  assume a: "4 \<le> length buf \<and> 0 \<le> declared_batch_size buf \<and> declared_batch_size buf < 2 ^ 29 - 2"
    and b: "4 + 4 * (declared_batch_size buf + 1) \<le> int (length buf)"
  then show "parse_packed_strings buf =
           Inr \<lparr>batch_size = i32_of_bytes (take 4 buf), begin_ids = 4, end_ids = 8,
                symbols = 8 + 4 * declared_batch_size buf\<rparr>"
    using parse_packed_strings_accepts [of buf] by simp
next
  assume a: "4 \<le> length buf \<and> 0 \<le> declared_batch_size buf \<and> declared_batch_size buf < 2 ^ 29 - 2"
    and b: "4 + 4 * (declared_batch_size buf + 1) \<le> int (length buf)"
  show "\<forall>k \<in> {0 .. declared_batch_size buf}. \<exists>w. read_i32 buf (4 + 4 * k) = Inr w"
  proof
    fix k assume "k \<in> {0 .. declared_batch_size buf}"
    with b have "0 \<le> 4 + 4 * k \<and> 4 + 4 * k + 4 \<le> int (length buf)" by simp
    then show "\<exists>w. read_i32 buf (4 + 4 * k) = Inr w" by (simp add: read_i32_def)
  qed
qed

theorem parse_packed_strings_header_check_only_witness:
  "parse_packed_strings [1,0,0,0, 0,0,0,0, 100,0,0,0] =
     Inr \<lparr>batch_size = 1, begin_ids = 4, end_ids = 8, symbols = 12\<rparr> \<and>
   parse_packed_strings [1,0,0,0, 0,0,0,0, 100,0,0] = Inl MalformedPackedBuffer \<and>
   parse_packed_strings [1,0,0] = Inl MalformedPackedBuffer"
proof -
  have d1: "declared_batch_size [1,0,0,0, 0,0,0,0, 100,0,0,0] = 1"
    by (simp add: declared_batch_size_def i32_of_bytes_def)
  have d2: "declared_batch_size [1,0,0,0, 0,0,0,0, 100,0,0] = 1"
    by (simp add: declared_batch_size_def i32_of_bytes_def)
  have i: "i32_of_bytes [1,0,0,0] = 1" by (simp add: i32_of_bytes_def)
  show ?thesis
    using parse_packed_strings_header_check_only [of "[1,0,0,0, 0,0,0,0, 100,0,0,0]"]
      parse_packed_strings_header_check_only [of "[1,0,0,0, 0,0,0,0, 100,0,0]"]
      parse_packed_strings_header_check_only [of "[1,0,0]"]
    by (simp add: d1 d2 i)
qed


section \<open>Claims about the byte-to-char table and the split modes\<close>

text \<open>
  Claim C6, as stated, fails: byte 161 does not map to itself as a single byte. Its
  entry is the two bytes \<open>0xC2 0xA1\<close>, the UTF-8 encoding of code point 161.
\<close>

theorem bytes_to_chars_161_counterexample:
  "bytes_to_chars_at 161 = Inr [194, 161] \<and> bytes_to_chars_at 161 \<noteq> Inr [161]"
  by (simp add: bytes_to_chars_at_spec spec_bytes_to_chars_def spec_utf8_two_bytes_def
        spec_code_point_def)

text \<open>
  Claim C6, amended. The table has an entry for every byte, of one or two bytes, so the
  remapped string is at most twice as long as its input. Bytes 33..126 map to
  themselves as single bytes. Bytes 161..172 and 174..255 map to the two-byte UTF-8
  encoding of the code point equal to the byte value. The remaining bytes 0..32,
  127..160 and 173 map to the two-byte UTF-8 encodings of code points in
  \<open>0x100..0x143\<close>.
\<close>

theorem bytes_to_chars_table:
  "bytes_to_chars_at b = Inr (spec_bytes_to_chars b) \<and>
   (length (spec_bytes_to_chars b) = 1 \<or> length (spec_bytes_to_chars b) = 2) \<and>
   (33 \<le> b \<and> b \<le> 126 \<longrightarrow> bytes_to_chars_at b = Inr [b]) \<and>
   (161 \<le> b \<and> b \<le> 172 \<or> 174 \<le> b \<longrightarrow>
      bytes_to_chars_at b = Inr (spec_utf8_two_bytes (unat b))) \<and>
   (b \<le> 32 \<or> 127 \<le> b \<and> b \<le> 160 \<or> b = 173 \<longrightarrow>
      bytes_to_chars_at b = Inr (spec_utf8_two_bytes (spec_code_point b)) \<and>
      256 \<le> spec_code_point b \<and> spec_code_point b \<le> 323) \<and>
   (\<exists>out. bytes_to_chars_string bs = Inr out \<and> length bs \<le> length out \<and>
          length out \<le> 2 * length bs)"
proof -
  have u: "unat b < 256" by (rule unat_u8_less)
  have 1: "33 \<le> b \<and> b \<le> 126 \<longrightarrow> spec_bytes_to_chars b = [b]"
    by (simp add: spec_bytes_to_chars_def)
  have 2: "161 \<le> b \<and> b \<le> 172 \<or> 174 \<le> b \<longrightarrow>
             spec_bytes_to_chars b = spec_utf8_two_bytes (unat b)"
    by (auto simp: spec_bytes_to_chars_def spec_code_point_def word_le_nat_alt)
  have 3: "b \<le> 32 \<or> 127 \<le> b \<and> b \<le> 160 \<or> b = 173 \<longrightarrow>
             spec_bytes_to_chars b = spec_utf8_two_bytes (spec_code_point b)"
    by (auto simp: spec_bytes_to_chars_def word_le_nat_alt)
  have 4: "b \<le> 32 \<or> 127 \<le> b \<and> b \<le> 160 \<or> b = 173 \<longrightarrow>
             256 \<le> spec_code_point b \<and> spec_code_point b \<le> 323"
    using u by (auto simp: spec_code_point_def word_le_nat_alt)
  have 5: "length (spec_bytes_to_chars b) = 1 \<or> length (spec_bytes_to_chars b) = 2"
    by (simp add: length_spec_bytes_to_chars)
  show ?thesis
    using 1 2 3 4 5 length_concat_spec_bytes_to_chars [of bs]
    by (simp add: bytes_to_chars_at_spec bytes_to_chars_string_spec)
qed

theorem bytes_to_chars_table_witness:
  "bytes_to_chars_at 0x20 = Inr [0xC4, 0xA0] \<and> bytes_to_chars_at 0x41 = Inr [0x41] \<and>
   bytes_to_chars_at 200 = Inr [0xC3, 0x88] \<and>
   (\<exists>out. bytes_to_chars_string [0x20, 0x41] = Inr out \<and> length out \<le> 4)"
proof -
  have a: "spec_utf8_two_bytes (spec_code_point 0x20) = [0xC4, 0xA0]"
    by (simp add: spec_utf8_two_bytes_def spec_code_point_def)
  have b: "spec_utf8_two_bytes 200 = [0xC3, 0x88]"
    by (simp add: spec_utf8_two_bytes_def)
  have A: "bytes_to_chars_at 0x20 = Inr [0xC4, 0xA0]"
    using bytes_to_chars_table [of "0x20" "[]"] by (auto simp: a)
  have B: "bytes_to_chars_at 0x41 = Inr [0x41]"
    using bytes_to_chars_table [of "0x41" "[]"] by auto
  have C: "bytes_to_chars_at 200 = Inr [0xC3, 0x88]"
    using bytes_to_chars_table [of 200 "[]"] by (auto simp: b)
  have D: "\<exists>out. bytes_to_chars_string [0x20, 0x41] = Inr out \<and> length out \<le> 4"
    using bytes_to_chars_table [of 0 "[0x20, 0x41]"] by auto
  from A B C D show ?thesis by simp
qed





section \<open>Claims about BytesToChars and RegexSplit\<close>

text \<open>
  Claim C5 does not hold of the code. \<open>BytesToChars::evaluate\<close> writes \<open>new_begins\<close> and
  \<open>new_ends\<close> at the row index \<open>j\<close>, once per row, not at the string index \<open>i\<close>. For
  one row holding the two strings \<open>a\<close> and \<open>b\<close>, the row ranges are passed through
  and still name strings 0 and 1, but the output holds the single span \<open>(0, 2)\<close> at
  index 0, the cells of string 1 are never written, and the character buffer keeps its
  unused second half.
\<close>

theorem BytesToChars_one_span_per_row:
  "BytesToChars_evaluate
     \<lparr>begins = [0, 1], ends = [1, 2], chars = [97, 98],
      ragged_begins = [0], ragged_ends = [2]\<rparr>
   = Inr \<lparr>new_ragged_begins = [0], new_ragged_ends = [2],
          new_begins = [Some 0, None], new_ends = [Some 2, None],
          new_chars = [Some 97, Some 98, None, None]\<rparr>"
  by (simp add: BytesToChars_evaluate_def BytesToChars_row_def BytesToChars_word_def
        BytesToChars_byte_def bytes_to_chars_at_spec spec_bytes_to_chars_def
        read_at_def write_at_def allocate_def upt_rec replicate_4 size_t_of_i32_small)

text \<open>
  Claim C8 does not hold of the code. In \<open>RegexSplit::evaluate\<close> the assignment to
  \<open>new_ragged_begins[seq]\<close> stands inside the loop over the words of the row, so a row
  without words never gets its begin written, and a row of several words keeps the
  offset of its last word. For the rows \<open>[a, b]\<close> and \<open>[]\<close>, with a splitter that
  returns every word whole: row 1 ends at 2 but its begin is never written, and row 0
  begins at 1 instead of 0.
\<close>

theorem RegexSplit_empty_row_begin_unwritten:
  "RegexSplit_evaluate (\<lambda>pattern mode invert s. [(0, length s)]) ''remove'' False
     (Ragged \<lparr>begins = [0, 1], ends = [1, 2], chars = [97, 98],
              ragged_begins = [0, 2], ragged_ends = [2, 2]\<rparr> [32])
   = Inr \<lparr>new_ragged_begins = [Some 1, None], new_ragged_ends = [Some 2, Some 2],
          new_begins = [Some 0, Some 1], new_ends = [Some 1, Some 2],
          new_chars = [97, 98]\<rparr>"
  by (simp add: RegexSplit_evaluate_def split_modes_def RegexSplit_loops_def RegexSplit_seq_def
        RegexSplit_word_def read_at_def read_range_def write_at_def write_at_i32_def
        allocate_def upt_rec size_t_of_i32_small)


section \<open>Claims about RaggedToDense\<close>

text \<open>
  Claim C1. For every ragged tensor (as many row ends as row begins, and
  \<open>0 \<le> rag_begins[i] \<le> rag_ends[i] \<le> len(elems)\<close>), every \<open>target_dim\<close> and every
  default value, \<open>RaggedToDense\<close> raises nothing and returns a dense output and a mask
  of \<open>target_dim\<close> columns per row: row \<open>i\<close> of the dense output is the first
  \<open>min (rag_ends[i] - rag_begins[i]) target_dim\<close> elements from \<open>rag_begins[i]\<close> on,
  followed by the default value, and row \<open>i\<close> of the mask is 1 on exactly those copied
  positions and 0 on the padding. A longer row is cut at \<open>target_dim\<close>.
\<close>

theorem RaggedToDense_rows:
  assumes "spec_ragged_wf t"
  shows "\<exists>dense mask.
           RaggedToDense_evaluate t default_value target_dim = Inr (dense, mask) \<and>
           length dense = length (rag_begins t) * target_dim \<and>
           length mask = length (rag_begins t) * target_dim \<and>
           (\<forall>i < length (rag_begins t).
              row_of dense target_dim i = spec_dense_row t default_value target_dim i \<and>
              row_of mask target_dim i = spec_mask_row t target_dim i)"
proof -
  let ?n = "length (rag_begins t)"
  let ?drows = "map (spec_dense_row t default_value target_dim) [0..<?n]"
  let ?mrows = "map (spec_mask_row t target_dim) [0..<?n]"
  have loop: "for_each (RaggedToDense_row t default_value target_dim) [0..<?n] ([], [])
                = Inr (concat ?drows, concat ?mrows)"
    using RaggedToDense_loop_wf [OF assms, of "[0..<?n]" default_value target_dim "[]" "[]"]
    by simp
  have dw: "\<forall>xs \<in> set ?drows. length xs = target_dim"
    using length_spec_dense_row [OF assms] by auto
  have mw: "\<forall>xs \<in> set ?mrows. length xs = target_dim"
    by (auto simp: length_spec_mask_row)
  have dl: "length (concat ?drows) = ?n * target_dim"
    using length_concat_rows [OF dw] by simp
  have ml: "length (concat ?mrows) = ?n * target_dim"
    using length_concat_rows [OF mw] by simp
  have ev: "RaggedToDense_evaluate t default_value target_dim = Inr (concat ?drows, concat ?mrows)"
    by (simp add: RaggedToDense_evaluate_def loop dl ml Let_def)
  have rows: "\<forall>i < ?n. row_of (concat ?drows) target_dim i = spec_dense_row t default_value target_dim i
                \<and> row_of (concat ?mrows) target_dim i = spec_mask_row t target_dim i"
  proof (intro allI impI)
    fix i assume i: "i < ?n"
    have "row_of (concat ?drows) target_dim i = ?drows ! i"
      using i by (intro row_of_concat [OF dw]) simp
    moreover have "row_of (concat ?mrows) target_dim i = ?mrows ! i"
      using i by (intro row_of_concat [OF mw]) simp
    ultimately show "row_of (concat ?drows) target_dim i = spec_dense_row t default_value target_dim i
                \<and> row_of (concat ?mrows) target_dim i = spec_mask_row t target_dim i"
      using i by simp
  qed
  from ev dl ml rows show ?thesis by blast
qed

theorem RaggedToDense_rows_witness:
  "spec_ragged_wf \<lparr>rag_begins = [0, 3], rag_ends = [3, 5], elems = [7, 8, 9, 10, 11 :: int]\<rparr> \<and>
   (\<exists>dense mask.
      RaggedToDense_evaluate
        \<lparr>rag_begins = [0, 3], rag_ends = [3, 5], elems = [7, 8, 9, 10, 11 :: int]\<rparr> 0 4
        = Inr (dense, mask) \<and>
      row_of dense 4 0 = [7, 8, 9, 0] \<and> row_of dense 4 1 = [10, 11, 0, 0] \<and>
      row_of mask 4 0 = [1, 1, 1, 0] \<and> row_of mask 4 1 = [1, 1, 0, 0])"
proof -
  let ?T = "\<lparr>rag_begins = [0, 3], rag_ends = [3, 5], elems = [7, 8, 9, 10, 11 :: int]\<rparr>"
  have wf: "spec_ragged_wf ?T" by (simp add: spec_ragged_wf_def upt_rec)
  have d0: "spec_dense_row ?T 0 4 0 = [7, 8, 9, 0]"
    by (simp add: spec_dense_row_def spec_row_len_def)
  have d1: "spec_dense_row ?T 0 4 1 = [10, 11, 0, 0]"
    by (simp add: spec_dense_row_def spec_row_len_def numeral_eq_Suc)
  have m0: "spec_mask_row ?T 4 0 = [1, 1, 1, 0]"
    by (simp add: spec_mask_row_def spec_row_len_def numeral_eq_Suc)
  have m1: "spec_mask_row ?T 4 1 = [1, 1, 0, 0]"
    by (simp add: spec_mask_row_def spec_row_len_def numeral_eq_Suc)
  from RaggedToDense_rows [OF wf, of 0 4] obtain dense mask where
    "RaggedToDense_evaluate ?T 0 4 = Inr (dense, mask)"
    "\<forall>i < 2. row_of dense 4 i = spec_dense_row ?T 0 4 i \<and> row_of mask 4 i = spec_mask_row ?T 4 i"
    by auto
  then have "RaggedToDense_evaluate ?T 0 4 = Inr (dense, mask) \<and>
      row_of dense 4 0 = [7, 8, 9, 0] \<and> row_of dense 4 1 = [10, 11, 0, 0] \<and>
      row_of mask 4 0 = [1, 1, 1, 0] \<and> row_of mask 4 1 = [1, 1, 0, 0]"
    using d0 d1 m0 m1 by auto
  with wf show ?thesis by blast
qed


section \<open>Claims about CombineSegments\<close>

text \<open>
  Claim C9. Whenever \<open>CombineSegments\<close> returns, its two ragged outputs have the same
  \<open>rag_begins\<close> and the same \<open>rag_ends\<close>, cell for cell, and every cell of them has been
  written.
\<close>

theorem CombineSegments_same_row_ranges:
  assumes "CombineSegments_evaluate inputs ids = Inr out"
  shows "out_elem_begins out = out_id_begins out \<and> out_elem_ends out = out_id_ends out \<and>
         list_all (\<lambda>c. c \<noteq> None) (out_elem_begins out) \<and>
         list_all (\<lambda>c. c \<noteq> None) (out_elem_ends out)"
proof -
  from CombineSegments_evaluate_Inr [OF assms]
  obtain n fos oeb oee oib oie oe oi off where
    loop: "for_each (CombineSegments_row inputs ids fos) [0..<n]
             (allocate n, allocate n, allocate n, allocate n, [], [], 0)
             = Inr (oeb, oee, oib, oie, oe, oi, off)"
    and out: "out = \<lparr>out_elem_begins = oeb, out_elem_ends = oee, out_elems = oe,
                      out_id_begins = oib, out_id_ends = oie, out_ids = oi\<rparr>"
    by blast
  have "combine_inv n n (oeb, oee, oib, oie, oe, oi, off)"
  proof (rule for_each_range_invariant [where I = "combine_inv n" and lo = 0 and hi = n])
    show "for_each (CombineSegments_row inputs ids fos) [0..<n]
            (allocate n, allocate n, allocate n, allocate n, [], [], 0)
            = Inr (oeb, oee, oib, oie, oe, oi, off)"
      by (rule loop)
    show "0 \<le> n" by simp
    show "combine_inv n 0 (allocate n, allocate n, allocate n, allocate n, [], [], 0)"
      by (simp add: combine_inv_def allocate_def)
  next
    fix k t t'
    assume "combine_inv n k t" "CombineSegments_row inputs ids fos k t = Inr t'"
    then show "combine_inv n (Suc k) t'" by (rule combine_inv_step)
  qed
  then show ?thesis
    by (auto simp: combine_inv_def out list_all_length)
qed


theorem CombineSegments_same_row_ranges_witness:
  "\<exists>out. CombineSegments_evaluate
           [\<lparr>rag_begins = [0], rag_ends = [2], elems = [101, 5 :: int],
             shape = [1], partial_rank = 1\<rparr>,
            \<lparr>rag_begins = [0], rag_ends = [2], elems = [6, 102],
             shape = [1], partial_rank = 1\<rparr>]
           [0, 1 :: int] = Inr out \<and>
         out_elems out = [101, 5, 6, 102] \<and> out_ids out = [0, 0, 1, 1] \<and>
         out_elem_begins out = out_id_begins out \<and> out_elem_ends out = out_id_ends out"
proof -
  have ev: "CombineSegments_evaluate
     [\<lparr>rag_begins = [0], rag_ends = [2], elems = [101, 5 :: int], shape = [1], partial_rank = 1\<rparr>,
      \<lparr>rag_begins = [0], rag_ends = [2], elems = [6, 102], shape = [1], partial_rank = 1\<rparr>]
     [0, 1 :: int]
   = Inr \<lparr>out_elem_begins = [Some 0], out_elem_ends = [Some 4], out_elems = [101, 5, 6, 102],
          out_id_begins = [Some 0], out_id_ends = [Some 4], out_ids = [0, 0, 1, 1]\<rparr>"
    by (simp add: CombineSegments_evaluate_def CombineSegments_row_def CombineSegments_segment_def
          shape_size_def read_at_def read_range_def write_at_def allocate_def
          size_t_of_i32_small upt_rec numeral_2_eq_2)
  from CombineSegments_same_row_ranges [OF ev] ev show ?thesis by simp
qed


section \<open>Claims about the outputs of normalizers and tokenizers\<close>

text \<open>
  Claim C10. Every string triple that the normalization helper returns, hence every one
  that \<open>CaseFold\<close>, \<open>NormalizeUnicode\<close> and \<open>RegexNormalization\<close> return, and every
  ragged output that \<open>WordpieceTokenizer\<close> and \<open>BPETokenizer\<close> return, is a gap-free
  partition of its flat buffer: the first begin is 0, every begin is the end before it,
  and the last end is the length of the buffer. The input has as many begins as ends,
  and the flat output buffer is shorter than \<open>2 ^ 31\<close>, so that an \<open>int32\<close> can hold
  its length.
\<close>

theorem decomposed_outputs_gap_free:
  "(evaluate_normalization_helper normalizer strings = Inr out1 \<and>
      length (begins strings) = length (ends strings) \<and> length (out_flat out1) < 2 ^ 31
      \<longrightarrow> spec_gap_free (out_begins out1) (out_ends out1) (length (out_flat out1))) \<and>
   (CaseFold_evaluate Lowercase strings = Inr out2 \<and>
      length (begins strings) = length (ends strings) \<and> length (out_flat out2) < 2 ^ 31
      \<longrightarrow> spec_gap_free (out_begins out2) (out_ends out2) (length (out_flat out2))) \<and>
   (NormalizeUnicode_evaluate NFD NFC NFKD NFKC form strings = Inr out3 \<and>
      length (begins strings) = length (ends strings) \<and> length (out_flat out3) < 2 ^ 31
      \<longrightarrow> spec_gap_free (out_begins out3) (out_ends out3) (length (out_flat out3))) \<and>
   (RegexNormalization_evaluate Replace strings search replace = Inr out4 \<and>
      length (begins strings) = length (ends strings) \<and> length (out_flat out4) < 2 ^ 31
      \<longrightarrow> spec_gap_free (out_begins out4) (out_ends out4) (length (out_flat out4))) \<and>
   (WordpieceTokenizer_evaluate FastWordPiece suffix max_bytes words vocab unk_token_id = Inr out5 \<and>
      length (ragged_begins words) = length (ragged_ends words) \<and> length (out_flat out5) < 2 ^ 31
      \<longrightarrow> spec_gap_free (out_begins out5) (out_ends out5) (length (out_flat out5))) \<and>
   (BPETokenizer_evaluate BPE unk_token fuse_unk suffix end_suffix words vocab merges = Inr out6 \<and>
      length (ragged_begins words) = length (ragged_ends words) \<and> length (out_flat out6) < 2 ^ 31
      \<longrightarrow> spec_gap_free (out_begins out6) (out_ends out6) (length (out_flat out6)))"
proof (intro conjI impI; elim conjE)
  assume "evaluate_normalization_helper normalizer strings = Inr out1"
    "length (begins strings) = length (ends strings)" "length (out_flat out1) < 2 ^ 31"
  then show "spec_gap_free (out_begins out1) (out_ends out1) (length (out_flat out1))"
    by (rule normalization_helper_gap_free)
next
  assume "CaseFold_evaluate Lowercase strings = Inr out2"
    "length (begins strings) = length (ends strings)" "length (out_flat out2) < 2 ^ 31"
  then show "spec_gap_free (out_begins out2) (out_ends out2) (length (out_flat out2))"
    unfolding CaseFold_evaluate_def by (rule normalization_helper_gap_free)
next
  assume ev: "NormalizeUnicode_evaluate NFD NFC NFKD NFKC form strings = Inr out3"
    and h: "length (begins strings) = length (ends strings)" "length (out_flat out3) < 2 ^ 31"
  from ev obtain f where "evaluate_normalization_helper f strings = Inr out3"
    by (auto simp: NormalizeUnicode_evaluate_def split: option.splits)
  then show "spec_gap_free (out_begins out3) (out_ends out3) (length (out_flat out3))"
    using h by (rule normalization_helper_gap_free)
next
  assume ev: "RegexNormalization_evaluate Replace strings search replace = Inr out4"
    and h: "length (begins strings) = length (ends strings)" "length (out_flat out4) < 2 ^ 31"
  from ev obtain f where "evaluate_normalization_helper f strings = Inr out4"
    by (auto simp: RegexNormalization_evaluate_def Let_def split: if_splits)
  then show "spec_gap_free (out_begins out4) (out_ends out4) (length (out_flat out4))"
    using h by (rule normalization_helper_gap_free)
next
  assume ev: "WordpieceTokenizer_evaluate FastWordPiece suffix max_bytes words vocab unk_token_id = Inr out5"
    and h: "length (ragged_begins words) = length (ragged_ends words)" "length (out_flat out5) < 2 ^ 31"
  from WordpieceTokenizer_evaluate_Inr [OF ev] obtain T where "tokenizer_rows T words = Inr out5"
    by blast
  then show "spec_gap_free (out_begins out5) (out_ends out5) (length (out_flat out5))"
    using h by (rule tokenizer_rows_gap_free)
next
  assume ev: "BPETokenizer_evaluate BPE unk_token fuse_unk suffix end_suffix words vocab merges = Inr out6"
    and h: "length (ragged_begins words) = length (ragged_ends words)" "length (out_flat out6) < 2 ^ 31"
  from BPETokenizer_evaluate_Inr [OF ev] obtain T where "tokenizer_rows T words = Inr out6"
    by blast
  then show "spec_gap_free (out_begins out6) (out_ends out6) (length (out_flat out6))"
    using h by (rule tokenizer_rows_gap_free)
qed

theorem decomposed_outputs_gap_free_witness:
  "(\<exists>out. evaluate_normalization_helper (\<lambda>s. s @ s)
             \<lparr>begins = [0, 1], ends = [1, 3], chars = [97, 98, 99]\<rparr> = Inr out \<and>
          out_flat out = [97, 97, 98, 99, 98, 99] \<and>
          spec_gap_free (out_begins out) (out_ends out) (length (out_flat out))) \<and>
   (\<exists>out. WordpieceTokenizer_evaluate (\<lambda>voc unk maxb suf flag s. [of_nat (length s), 9])
             [35, 35] 100
             \<lparr>begins = [0, 1], ends = [1, 3], chars = [97, 98, 99, 100],
              ragged_begins = [0], ragged_ends = [2]\<rparr>
             \<lparr>begins = [0], ends = [1], chars = [97]\<rparr> 0 = Inr out \<and>
          out_flat out = [Some 1, Some 9, Some 2, Some 9] \<and>
          spec_gap_free (out_begins out) (out_ends out) (length (out_flat out))) \<and>
   (\<exists>out. BPETokenizer_evaluate (\<lambda>voc mrg cache unk suf esuf fuse s. [of_nat (length s), 9])
             [] False [] []
             \<lparr>begins = [0, 1], ends = [1, 3], chars = [97, 98, 99, 100],
              ragged_begins = [0], ragged_ends = [2]\<rparr>
             \<lparr>begins = [0], ends = [1], chars = [97]\<rparr>
             \<lparr>begins = [0], ends = [3], chars = [97, 32, 98]\<rparr> = Inr out \<and>
          out_flat out = [Some 1, Some 9, Some 2, Some 9] \<and>
          spec_gap_free (out_begins out) (out_ends out) (length (out_flat out)))"
proof -
  let ?S = "\<lparr>begins = [0, 1], ends = [1, 3], chars = [97, 98, 99]\<rparr>"
  let ?W = "\<lparr>begins = [0, 1], ends = [1, 3], chars = [97, 98, 99, 100],
              ragged_begins = [0], ragged_ends = [2]\<rparr>"
  let ?V = "\<lparr>begins = [0], ends = [1], chars = [97]\<rparr>"
  let ?M = "\<lparr>begins = [0], ends = [3], chars = [97, 32, 98]\<rparr>"
  let ?O1 = "\<lparr>out_begins = [Some 0, Some 2], out_ends = [Some 2, Some 6],
               out_flat = [97, 97, 98, 99, 98, 99 :: u8]\<rparr>"
  let ?O5 = "\<lparr>out_begins = [Some 0], out_ends = [Some 4],
               out_flat = [Some 1, Some 9, Some 2, Some 9 :: i32 option]\<rparr>"
  have g1: "spec_gap_free (out_begins ?O1) (out_ends ?O1) (length (out_flat ?O1))"
    using decomposed_outputs_gap_free
      [where normalizer = "\<lambda>s. s @ s" and strings = ?S and ?out1.0 = ?O1,
       THEN conjunct1] normalization_helper_example
    by simp
  have g5: "spec_gap_free (out_begins ?O5) (out_ends ?O5) (length (out_flat ?O5))"
    using decomposed_outputs_gap_free
      [where FastWordPiece = "\<lambda>voc unk maxb suf flag s. [of_nat (length s), 9]"
         and suffix = "[35, 35]" and max_bytes = 100 and words = ?W and vocab = ?V
         and unk_token_id = 0 and ?out5.0 = ?O5,
       THEN conjunct2, THEN conjunct2, THEN conjunct2, THEN conjunct2, THEN conjunct1]
      WordpieceTokenizer_example
    by simp
  have g6: "spec_gap_free (out_begins ?O5) (out_ends ?O5) (length (out_flat ?O5))"
    using decomposed_outputs_gap_free
      [where BPE = "\<lambda>voc mrg cache unk suf esuf fuse s. [of_nat (length s), 9]"
         and unk_token = "[]" and fuse_unk = False and suffix = "[]" and end_suffix = "[]"
         and words = ?W and vocab = ?V and merges = ?M and ?out6.0 = ?O5,
       THEN conjunct2, THEN conjunct2, THEN conjunct2, THEN conjunct2, THEN conjunct2]
      BPETokenizer_example
    by simp
  show ?thesis
    using g1 g5 g6 normalization_helper_example WordpieceTokenizer_example BPETokenizer_example by simp
qed


end
